theory Spec2Isabelle
  imports Complex_Main "HOL-Library.Log_Nat"
begin

section \<open>The Performance Index Engine (unified_performance_index_standardized.js)\<close>

text \<open>
  A shallow embedding of class \<open>UnifiedPerformanceIndex\<close>.

  Numbers. A JavaScript number is an IEEE 754 double. It is modelled as the rational
  that it denotes, and every arithmetic operation of the source rounds its exact result
  to the nearest double, a tie going to the even significand (\<open>fl\<close>, and \<open>jsAdd\<close>,
  \<open>jsSub\<close>, \<open>jsMul\<close>, \<open>jsDiv\<close> for \<open>+\<close>, \<open>-\<close>, \<open>*\<close>, \<open>/\<close>). A decimal
  literal such as \<open>0.15\<close> is \<open>fl (15 / 100)\<close>. The significand has 53 bits; the
  exponent is not bounded, so overflow to \<open>Infinity\<close> (beyond \<open>2^1024\<close>) and gradual
  underflow (below \<open>2^-1022\<close>) are outside the model, and so is \<open>NaN\<close>. The values
  that the source passes through \<open>Math.round\<close> are of type \<open>int\<close>.

  Strings are lists of ASCII characters; \<open>toLowerCase\<close> maps the letters A to Z.

  Time. Every \<open>new Date()\<close> and \<open>Date.now()\<close> of one call reads the same instant,
  given in milliseconds since the epoch. The instants that the source derives from it
  with the local calendar (\<open>setDate(getDate() - 30)\<close>, \<open>new Date(year, month, 1)\<close>)
  depend on the time zone of the browser; they are fields of the record \<open>clock\<close>.
  \<open>Date.prototype.toDateString\<close>, the local calendar day of an instant, is a parameter
  \<open>toDateString\<close> of the functions that call it.
\<close>

subsection \<open>Numbers\<close>

definition ilog2 :: "rat \<Rightarrow> int" where
  \<comment> \<open>The binary exponent of \<open>x \<noteq> 0\<close>: the \<open>e\<close> with \<open>2^e \<le> |x| < 2^(e+1)\<close>, found from
      the bit lengths of numerator and denominator.\<close>
  "ilog2 x =
     (let p = fst (quotient_of \<bar>x\<bar>); q = snd (quotient_of \<bar>x\<bar>);
          d = bitlen p - bitlen q
      in if 2 powi d \<le> \<bar>x\<bar> then d else d - 1)"

definition roundEven :: "rat \<Rightarrow> int" where
  \<comment> \<open>The nearest integer, a tie going to the even one.\<close>
  "roundEven t =
     (let n = \<lfloor>t\<rfloor>; r = t - of_int n
      in if r < 1 / 2 then n else if 1 / 2 < r then n + 1 else if even n then n else n + 1)"

definition fl :: "rat \<Rightarrow> rat" where
  \<comment> \<open>The double nearest to \<open>x\<close>: a multiple of \<open>2^(e-52)\<close> for the exponent \<open>e\<close> of
      \<open>x\<close>.\<close>
  "fl x = (if x = 0 then 0
           else let q = 2 powi (ilog2 x - 52) in of_int (roundEven (x / q)) * q)"

definition jsAdd :: "rat \<Rightarrow> rat \<Rightarrow> rat" where
  "jsAdd x y = fl (x + y)"

definition jsSub :: "rat \<Rightarrow> rat \<Rightarrow> rat" where
  "jsSub x y = fl (x - y)"

definition jsMul :: "rat \<Rightarrow> rat \<Rightarrow> rat" where
  "jsMul x y = fl (x * y)"

definition jsDiv :: "rat \<Rightarrow> rat \<Rightarrow> rat" where
  \<comment> \<open>Every division of the source is behind a test that the divisor is not zero.\<close>
  "jsDiv x y = fl (x / y)"

definition js_round :: "rat \<Rightarrow> int" where
  \<comment> \<open>\<open>Math.round\<close>: the nearest integer, a tie going up; exact on a double.\<close>
  "js_round x = \<lfloor>x + 1 / 2\<rfloor>"

definition truthy :: "rat option \<Rightarrow> bool" where
  \<comment> \<open>A numeric property in a condition or on the left of \<open>||\<close>: absent and 0 are falsy.\<close>
  "truthy v = (case v of None \<Rightarrow> False | Some x \<Rightarrow> x \<noteq> 0)"

definition orElse :: "rat option \<Rightarrow> rat \<Rightarrow> rat" where
  \<comment> \<open>\<open>v || d\<close> for a numeric property \<open>v\<close>, which holds the number written in the JSON
      text; \<open>JSON.parse\<close> has rounded it to a double.\<close>
  "orElse v d = (case v of None \<Rightarrow> d | Some x \<Rightarrow> if x = 0 then d else fl x)"

definition orElseStr :: "string option \<Rightarrow> string \<Rightarrow> string" where
  \<comment> \<open>\<open>v || d\<close> for a string property \<open>v\<close>: absent and the empty string are falsy.\<close>
  "orElseStr v d = (case v of None \<Rightarrow> d | Some s \<Rightarrow> if s = [] then d else s)"

definition toLowerCase :: "string \<Rightarrow> string" where
  "toLowerCase s =
     map (\<lambda>c. let n = (of_char c :: nat) in if 65 \<le> n \<and> n \<le> 90 then char_of (n + 32) else c) s"

definition msPerDay :: int where
  \<comment> \<open>\<open>24 * 60 * 60 * 1000\<close>\<close>
  "msPerDay = 24 * 60 * 60 * 1000"

subsection \<open>The constructor: weights, MET values, performance levels\<close>

record 'a components =
  consistency :: 'a
  performance :: 'a
  improvement :: 'a
  variety :: 'a
  intensity :: 'a

definition MAX_HISTORY_DAYS :: int where
  "MAX_HISTORY_DAYS = 90"

definition weights :: "rat components" where
  "weights = \<lparr>consistency = fl (25 / 100), performance = fl (25 / 100),
              improvement = fl (20 / 100), variety = fl (15 / 100),
              intensity = fl (15 / 100)\<rparr>"

definition metValues :: "string \<Rightarrow> rat option" where
  "metValues activity =
     (if activity = ''running'' then Some 11
      else if activity = ''cycling'' then Some 8
      else if activity = ''swimming'' then Some 10
      else if activity = ''weightlifting'' then Some 6
      else if activity = ''boxing'' then Some 12
      else if activity = ''walking'' then Some (fl (38 / 10))
      else if activity = ''yoga'' then Some (fl (25 / 10))
      else None)"

record performanceLevel =
  lmin :: int
  lmax :: int
  llevel :: string

definition performanceLevels :: "performanceLevel list" where
  "performanceLevels =
     [\<lparr>lmin = 90, lmax = 100, llevel = ''Elite Athlete''\<rparr>,
      \<lparr>lmin = 75, lmax = 89, llevel = ''Advanced''\<rparr>,
      \<lparr>lmin = 60, lmax = 74, llevel = ''Intermediate''\<rparr>,
      \<lparr>lmin = 45, lmax = 59, llevel = ''Developing''\<rparr>,
      \<lparr>lmin = 30, lmax = 44, llevel = ''Beginner''\<rparr>,
      \<lparr>lmin = 15, lmax = 29, llevel = ''Getting Started''\<rparr>,
      \<lparr>lmin = 0, lmax = 14, llevel = ''New User''\<rparr>]"

subsection \<open>The aggregator\<close>

definition calculateStandardizedScore :: "int components \<Rightarrow> int" where
  "calculateStandardizedScore c =
     (let weightedScore =
            jsAdd (jsAdd (jsAdd (jsAdd
              (jsMul (of_int (consistency c)) (consistency weights))
              (jsMul (of_int (performance c)) (performance weights)))
              (jsMul (of_int (improvement c)) (improvement weights)))
              (jsMul (of_int (variety c)) (variety weights)))
              (jsMul (of_int (intensity c)) (intensity weights))
      in js_round (max 0 (min 100 weightedScore)))"

fun findLevel :: "performanceLevel list \<Rightarrow> int \<Rightarrow> string" where
  \<comment> \<open>The \<open>for ... of\<close> loop of \<open>getStandardizedPerformanceLevel\<close> with its fallback.\<close>
  "findLevel [] score = ''New User''"
| "findLevel (l # ls) score =
     (if score \<ge> lmin l \<and> score \<le> lmax l then llevel l else findLevel ls score)"

definition getStandardizedPerformanceLevel :: "int \<Rightarrow> string" where
  "getStandardizedPerformanceLevel score = findLevel performanceLevels score"

definition clamp :: "rat \<Rightarrow> rat \<Rightarrow> rat \<Rightarrow> rat" where
  \<comment> \<open>The \<open>clamp(x, lo, hi)\<close> of the specification's formula.\<close>
  "clamp x lo hi = (if x < lo then lo else if hi < x then hi else x)"

definition specScore :: "int components \<Rightarrow> int" where
  \<comment> \<open>The specification's formula,
      \<open>round(clamp(0.25*consistency + 0.25*performance + 0.20*improvement
        + 0.15*variety + 0.15*intensity, 0, 100))\<close>, in exact arithmetic, to be compared
      with \<open>calculateStandardizedScore\<close>.\<close>
  "specScore c =
     js_round (clamp (25 / 100 * of_int (consistency c) + 25 / 100 * of_int (performance c)
                      + 20 / 100 * of_int (improvement c) + 15 / 100 * of_int (variety c)
                      + 15 / 100 * of_int (intensity c)) 0 100)"

subsection \<open>Workout records and the clock\<close>

text \<open>
  A workout record is an object parsed from JSON. A numeric property is \<open>None\<close> when the
  object does not have it, a string property likewise. A date property is absent (or
  another falsy value), a non-empty string that \<open>new Date\<close> cannot parse, or an instant.
  An element of the stored array can also be \<open>null\<close>: it is \<open>None\<close> in a
  \<open>workout option list\<close>, and reading a property of it throws a \<open>TypeError\<close>.
  A property that holds a JSON value of another type (a number where a string is read,
  a string where a number is read) is outside the model; so is an activity name that
  \<open>this.metValues[...]\<close> finds among the inherited properties of the object
  (\<open>withinModel\<close> below).
\<close>

datatype date_field = NoDate | BadDate | DateAt int

record workout =
  date :: date_field
  wtimestamp :: date_field
  calories :: "rat option"
  caloriesBurned :: "rat option"
  heartRate :: "rat option"
  age :: "rat option"
  weight :: "rat option"
  gender :: "string option"
  duration :: "rat option"
  activity :: "string option"
  workoutType :: "string option"
  wtype :: "string option"

record clock =
  now :: int
  thirtyDaysAgo :: int
  currentMonthStart :: int
  previousMonthStart :: int
  previousMonthEnd :: int

datatype js_error = TypeError

definition workoutDate :: "workout \<Rightarrow> int option" where
  \<comment> \<open>\<open>new Date(workout.date || workout.timestamp)\<close>; \<open>None\<close> is the invalid date,
      which compares false with every date.\<close>
  "workoutDate w =
     (case date w of
        DateAt t \<Rightarrow> Some t
      | BadDate \<Rightarrow> None
      | NoDate \<Rightarrow> (case wtimestamp w of DateAt t \<Rightarrow> Some t | _ \<Rightarrow> None))"

definition onOrAfter :: "int option \<Rightarrow> int \<Rightarrow> bool" where
  \<comment> \<open>\<open>d >= t\<close> for dates\<close>
  "onOrAfter d t = (case d of None \<Rightarrow> False | Some x \<Rightarrow> x \<ge> t)"

definition onOrBefore :: "int option \<Rightarrow> int \<Rightarrow> bool" where
  \<comment> \<open>\<open>d <= t\<close> for dates\<close>
  "onOrBefore d t = (case d of None \<Rightarrow> False | Some x \<Rightarrow> x \<le> t)"

definition sliceLast :: "nat \<Rightarrow> 'a list \<Rightarrow> 'a list" where
  \<comment> \<open>\<open>xs.slice(-n)\<close>\<close>
  "sliceLast n xs = drop (length xs - n) xs"

definition actualCaloriesOf :: "workout \<Rightarrow> rat" where
  \<comment> \<open>\<open>workout.calories || workout.caloriesBurned || 0\<close>\<close>
  "actualCaloriesOf w = orElse (calories w) (orElse (caloriesBurned w) 0)"

subsection \<open>Component scorers\<close>

definition workoutsLast30Days :: "clock \<Rightarrow> workout list \<Rightarrow> nat" where
  \<comment> \<open>\<open>recentWorkouts.length\<close> in \<open>calculateStandardizedConsistency\<close>\<close>
  "workoutsLast30Days clk workoutHistory =
     length (filter (\<lambda>workout. onOrAfter (workoutDate workout) (thirtyDaysAgo clk)) workoutHistory)"

definition calculateStandardizedConsistency :: "clock \<Rightarrow> workout list \<Rightarrow> rat" where
  "calculateStandardizedConsistency clk workoutHistory =
     (let n = workoutsLast30Days clk workoutHistory;
          consistencyScore = jsMul (jsDiv (of_nat n) 30) 100
      in if n < 3 then jsMul (jsDiv (of_nat n) 3) 10 else min 100 consistencyScore)"

definition getStandardizedTargetCalories :: "workout \<Rightarrow> rat" where
  "getStandardizedTargetCalories w =
     (let age' = orElse (age w) 25;
          weight' = orElse (weight w) 70;
          gender' = orElseStr (gender w) ''male'';
          duration' = orElse (duration w) 30;
          activity' = orElseStr (activity w) (orElseStr (workoutType w) ''running'');
          met = (case metValues (toLowerCase activity') of None \<Rightarrow> 7 | Some m \<Rightarrow> m);
          baseTarget = jsMul (jsMul met weight') (jsDiv duration' 60);
          adjustment = 1;
          adjustment = (if age' < 20 then jsMul adjustment (fl (11 / 10))
                        else if age' > 50 then jsMul adjustment (fl (9 / 10))
                        else if age' > 65 then jsMul adjustment (fl (8 / 10))
                        else adjustment);
          adjustment = (if toLowerCase gender' = ''male'' then jsMul adjustment (fl (11 / 10))
                        else adjustment)
      in of_int (js_round (jsMul baseTarget adjustment)))"

definition calculateStandardizedPerformance :: "workout list \<Rightarrow> rat" where
  "calculateStandardizedPerformance workoutHistory =
     (if length workoutHistory = 0 then 50
      else
        let recentWorkouts = sliceLast 10 workoutHistory;
            totalActualCalories = fold (\<lambda>w s. jsAdd s (actualCaloriesOf w)) recentWorkouts 0;
            totalTargetCalories =
              fold (\<lambda>w s. jsAdd s (getStandardizedTargetCalories w)) recentWorkouts 0
        in if totalTargetCalories = 0 then 50
           else min 100 (jsMul (jsDiv totalActualCalories totalTargetCalories) 100))"

definition getAverageCalories :: "workout list \<Rightarrow> rat" where
  "getAverageCalories workouts =
     (if length workouts = 0 then 0
      else jsDiv (fold (\<lambda>w s. jsAdd s (actualCaloriesOf w)) workouts 0)
             (of_nat (length workouts)))"

definition calculateStandardizedImprovement :: "clock \<Rightarrow> workout list \<Rightarrow> rat" where
  "calculateStandardizedImprovement clk workoutHistory =
     (if length workoutHistory < 2 then 50
      else
        let currentMonthWorkouts =
              filter (\<lambda>w. onOrAfter (workoutDate w) (currentMonthStart clk)) workoutHistory;
            previousMonthWorkouts =
              filter (\<lambda>w. onOrAfter (workoutDate w) (previousMonthStart clk)
                          \<and> onOrBefore (workoutDate w) (previousMonthEnd clk)) workoutHistory
        in if length previousMonthWorkouts = 0 then 50
           else
             let currentAvg = getAverageCalories currentMonthWorkouts;
                 previousAvg = getAverageCalories previousMonthWorkouts
             in if previousAvg = 0 then 50
                else
                  let improvementPercent =
                        jsMul (jsDiv (jsSub currentAvg previousAvg) previousAvg) 100;
                      scaledImprovement = jsMul (jsDiv improvementPercent 5) 100
                  in if improvementPercent < 0 then max 0 (jsAdd 50 scaledImprovement)
                     else min 100 (jsAdd 50 scaledImprovement))"

definition calculateStandardizedVariety :: "clock \<Rightarrow> workout list \<Rightarrow> rat" where
  "calculateStandardizedVariety clk workoutHistory =
     (let recentWorkouts =
            filter (\<lambda>w. onOrAfter (workoutDate w) (thirtyDaysAgo clk)) workoutHistory
      in if length recentWorkouts = 0 then 0
         else
           let uniqueTypes =
                 remdups (map (\<lambda>w. toLowerCase
                     (orElseStr (activity w) (orElseStr (workoutType w)
                        (orElseStr (wtype w) ''unknown'')))) recentWorkouts);
               uniqueCount = length uniqueTypes;
               maxTypes = 7;
               varietyScore = jsMul (jsDiv (of_nat uniqueCount) maxTypes) 100
           in min 100 varietyScore)"

definition getHeartRateZoneScore :: "rat \<Rightarrow> rat" where
  "getHeartRateZoneScore hrPercentage =
     (if hrPercentage \<ge> 50 \<and> hrPercentage < 60 then 20
      else if hrPercentage \<ge> 60 \<and> hrPercentage < 70 then 40
      else if hrPercentage \<ge> 70 \<and> hrPercentage < 80 then 70
      else if hrPercentage \<ge> 80 \<and> hrPercentage < 90 then 90
      else if hrPercentage \<ge> 90 then 100
      else 10)"

definition estimateHeartRate :: "workout \<Rightarrow> rat" where
  "estimateHeartRate w =
     (let age' = orElse (age w) 25;
          activity' = toLowerCase (orElseStr (activity w) (orElseStr (workoutType w) ''running''));
          duration' = orElse (duration w) 30;
          maxHeartRate = jsSub 220 age';
          intensityPercent =
            (if activity' = ''running''
             then jsAdd (fl (75 / 100)) (if duration' > 30 then fl (1 / 10) else 0)
             else if activity' = ''cycling'' then fl (70 / 100)
             else if activity' = ''swimming'' then fl (80 / 100)
             else if activity' = ''weightlifting'' then fl (65 / 100)
             else if activity' = ''boxing'' then fl (85 / 100)
             else if activity' = ''walking'' then fl (55 / 100)
             else if activity' = ''yoga'' then fl (45 / 100)
             else fl (7 / 10))
      in of_int (js_round (jsMul maxHeartRate intensityPercent)))"

definition intensityStep :: "workout \<Rightarrow> rat \<times> nat \<Rightarrow> rat \<times> nat" where
  \<comment> \<open>One pass of the \<open>forEach\<close> body of \<open>calculateStandardizedIntensity\<close> over the
      pair \<open>(totalIntensityScore, workoutCount)\<close>.\<close>
  "intensityStep w acc =
     (let heartRate' = orElse (heartRate w) (estimateHeartRate w);
          age' = orElse (age w) 25;
          maxHeartRate = jsSub 220 age'
      in if heartRate' > 0 \<and> maxHeartRate > 0
         then (jsAdd (fst acc) (getHeartRateZoneScore (jsMul (jsDiv heartRate' maxHeartRate) 100)),
               Suc (snd acc))
         else acc)"

definition calculateStandardizedIntensity :: "workout list \<Rightarrow> rat" where
  "calculateStandardizedIntensity workoutHistory =
     (if length workoutHistory = 0 then 50
      else
        let recentWorkouts = sliceLast 10 workoutHistory;
            acc = fold intensityStep recentWorkouts (0, 0)
        in if snd acc = 0 then 50 else jsDiv (fst acc) (of_nat (snd acc)))"

fun derefAll :: "workout option list \<Rightarrow> js_error + workout list" where
  \<comment> \<open>Reading a property of every element in turn: \<open>null\<close> has none.\<close>
  "derefAll [] = Inr []"
| "derefAll (None # ws) = Inl TypeError"
| "derefAll (Some w # ws) = (case derefAll ws of Inl e \<Rightarrow> Inl e | Inr os \<Rightarrow> Inr (w # os))"

definition roundClamp :: "rat \<Rightarrow> int" where
  \<comment> \<open>\<open>Math.round(Math.max(0, Math.min(100, x)))\<close>\<close>
  "roundClamp x = js_round (max 0 (min 100 x))"

definition calculateStandardizedComponents :: "clock \<Rightarrow> workout option list \<Rightarrow> js_error + int components" where
  \<comment> \<open>The first scorer's \<open>filter\<close> reads \<open>workout.date\<close> of every element, so a \<open>null\<close>
      element throws before any score is computed.\<close>
  "calculateStandardizedComponents clk workoutHistory =
     (case derefAll workoutHistory of
        Inl e \<Rightarrow> Inl e
      | Inr ws \<Rightarrow>
          Inr \<lparr>consistency = roundClamp (calculateStandardizedConsistency clk ws),
               performance = roundClamp (calculateStandardizedPerformance ws),
               improvement = roundClamp (calculateStandardizedImprovement clk ws),
               variety = roundClamp (calculateStandardizedVariety clk ws),
               intensity = roundClamp (calculateStandardizedIntensity ws)\<rparr>)"

subsection \<open>Snapshots, history entries and the store\<close>

text \<open>
  \<open>localStorage\<close> holds three kinds of items: the workout history under
  \<open>workoutHistory\<close>, the current index of a user under \<open>unifiedPerformanceIndex_<userId>\<close>
  and the history list of a user under \<open>performanceIndexHistory_<userId>\<close>. The three
  key families are disjoint, so the store is a record of three components, the last two
  maps from the user identifier.

  The item of the workout history is absent, not JSON, a JSON value that is not an array,
  or an array. A history item is a list of entries, or corrupt: not JSON, not an array,
  or an array with a \<open>null\<close> element; each of these makes \<open>saveToHistory\<close> and
  \<open>getIndexHistory\<close> throw inside their \<open>try\<close>. Entries carry a valid timestamp.
  \<open>setItem\<close> throws when the quota of the store is exceeded.

  The fields of a history entry are prefixed with \<open>h_\<close>, those of a level and of a
  comparison with \<open>l\<close> and \<open>c\<close>, to keep them apart from the fields of the index.
\<close>

record entry =
  h_score :: int
  h_level :: string
  h_components :: "int components"
  h_trend :: string
  h_timestamp :: int
  h_workoutCount :: nat

record comparison =
  ccurrent :: int
  cprevious :: int
  cdifference :: int
  cpercentChange :: rat
  ctrend :: string

record period_data =
  weekly :: "comparison option"
  monthly :: "comparison option"

record indexData =
  score :: int
  displayScore :: int
  level :: string
  components :: "int components"
  trend :: string
  lastUpdated :: int
  workoutCount :: nat
  periodData :: period_data
  benchmarksMet :: "string components option"

datatype stored_workouts = Absent | Malformed | NotArray | Array "workout option list"

datatype history_item = HCorrupt | HEntries "entry list"

record storage =
  workoutHistoryItem :: stored_workouts
  currentIndexItems :: "string \<Rightarrow> indexData option"
  historyItems :: "string \<Rightarrow> history_item option"
  quotaExceeded :: bool

record validation =
  isValid :: bool
  reason :: string

definition getWorkoutHistory :: "storage \<Rightarrow> stored_workouts" where
  \<comment> \<open>\<open>JSON.parse(localStorage.getItem('workoutHistory') || '[]')\<close>, \<open>[]\<close> when it throws\<close>
  "getWorkoutHistory st =
     (case workoutHistoryItem st of
        Absent \<Rightarrow> Array []
      | Malformed \<Rightarrow> Array []
      | NotArray \<Rightarrow> NotArray
      | Array ws \<Rightarrow> Array ws)"

definition elements :: "stored_workouts \<Rightarrow> workout option list" where
  "elements v = (case v of Array ws \<Rightarrow> ws | _ \<Rightarrow> [])"

definition truthyDate :: "date_field \<Rightarrow> bool" where
  "truthyDate d = (d \<noteq> NoDate)"

definition validateMetricInputs :: "stored_workouts \<Rightarrow> validation" where
  "validateMetricInputs workoutHistory =
     (case workoutHistory of
        Array ws \<Rightarrow>
          if length ws = 0 then \<lparr>isValid = True, reason = ''No workout data - using defaults''\<rparr>
          else
            let hasRequiredFields =
                  (case last ws of
                     None \<Rightarrow> False
                   | Some recentWorkout \<Rightarrow>
                       (truthy (calories recentWorkout) \<or> truthy (caloriesBurned recentWorkout))
                       \<and> (truthyDate (date recentWorkout) \<or> truthyDate (wtimestamp recentWorkout)))
            in \<lparr>isValid = (hasRequiredFields \<or> length ws = 0),
                reason = (if hasRequiredFields then ''Valid workout data''
                          else ''Missing required fields'')\<rparr>
      | _ \<Rightarrow> \<lparr>isValid = False, reason = ''Invalid workout history format''\<rparr>)"

definition getBenchmarkStatus :: "int components \<Rightarrow> string components" where
  "getBenchmarkStatus c =
     \<lparr>consistency = (if consistency c \<ge> 80 then ''Excellent''
                      else if consistency c \<ge> 60 then ''Good''
                      else if consistency c \<ge> 40 then ''Fair'' else ''Needs Improvement''),
      performance = (if performance c \<ge> 90 then ''Excellent''
                      else if performance c \<ge> 70 then ''Good''
                      else if performance c \<ge> 50 then ''Fair'' else ''Needs Improvement''),
      improvement = (if improvement c \<ge> 70 then ''Strong Growth''
                      else if improvement c \<ge> 50 then ''Steady''
                      else if improvement c \<ge> 30 then ''Slow Growth'' else ''Declining''),
      variety = (if variety c \<ge> 60 then ''Excellent''
                  else if variety c \<ge> 40 then ''Good''
                  else if variety c \<ge> 20 then ''Fair'' else ''Limited''),
      intensity = (if intensity c \<ge> 80 then ''High''
                    else if intensity c \<ge> 60 then ''Moderate''
                    else if intensity c \<ge> 40 then ''Light'' else ''Very Light'')\<rparr>"

definition getDefaultIndex :: "clock \<Rightarrow> indexData" where
  "getDefaultIndex clk =
     \<lparr>score = 0, displayScore = 0, level = ''Getting Started'',
      components = \<lparr>consistency = 0, performance = 0, improvement = 50, variety = 0,
                     intensity = 0\<rparr>,
      trend = ''stable'', lastUpdated = now clk, workoutCount = 0,
      periodData = \<lparr>weekly = None, monthly = None\<rparr>, benchmarksMet = None\<rparr>"

subsection \<open>History manager\<close>

definition readHistory :: "storage \<Rightarrow> string \<Rightarrow> history_item" where
  \<comment> \<open>\<open>JSON.parse(localStorage.getItem(key) || '[]')\<close>\<close>
  "readHistory st userId = (case historyItems st userId of None \<Rightarrow> HEntries [] | Some v \<Rightarrow> v)"

definition getIndexHistory :: "clock \<Rightarrow> storage \<Rightarrow> string \<Rightarrow> int \<Rightarrow> entry list" where
  "getIndexHistory clk st userId days =
     (case readHistory st userId of
        HCorrupt \<Rightarrow> []
      | HEntries history \<Rightarrow>
          let cutoffDate = now clk - days * msPerDay
          in filter (\<lambda>entry. h_timestamp entry > cutoffDate) history)"

fun mapSet :: "'k \<Rightarrow> 'v \<Rightarrow> ('k \<times> 'v) list \<Rightarrow> ('k \<times> 'v) list" where
  \<comment> \<open>\<open>Map.prototype.set\<close> on a map kept in insertion order: a key that is present keeps
      its position.\<close>
  "mapSet k v [] = [(k, v)]"
| "mapSet k v ((k', v') # m) = (if k' = k then (k, v) # m else (k', v') # mapSet k v m)"

definition dedupeStep :: "(int \<Rightarrow> 'd) \<Rightarrow> entry \<Rightarrow> ('d \<times> entry) list \<Rightarrow> ('d \<times> entry) list" where
  \<comment> \<open>The body of the \<open>forEach\<close> of \<open>dedupeDailyEntries\<close>.\<close>
  "dedupeStep toDateString entry dailyEntries =
     (let dateKey = toDateString (h_timestamp entry)
      in case map_of dailyEntries dateKey of
           None \<Rightarrow> mapSet dateKey entry dailyEntries
         | Some e \<Rightarrow> if h_timestamp entry > h_timestamp e then mapSet dateKey entry dailyEntries
                     else dailyEntries)"

definition dedupeDailyEntries :: "(int \<Rightarrow> 'd) \<Rightarrow> entry list \<Rightarrow> entry list" where
  "dedupeDailyEntries toDateString history =
     (let dailyEntries = fold (dedupeStep toDateString) history []
      in sort_key h_timestamp (map snd dailyEntries))"

definition entryOf :: "indexData \<Rightarrow> entry" where
  \<comment> \<open>The object pushed by \<open>saveToHistory\<close>.\<close>
  "entryOf indexData =
     \<lparr>h_score = score indexData, h_level = level indexData,
      h_components = components indexData, h_trend = trend indexData,
      h_timestamp = lastUpdated indexData, h_workoutCount = workoutCount indexData\<rparr>"

definition saveToHistory ::
    "(int \<Rightarrow> 'd) \<Rightarrow> clock \<Rightarrow> string \<Rightarrow> indexData \<Rightarrow> storage \<Rightarrow> bool \<times> storage" where
  "saveToHistory toDateString clk userId indexData st =
     (case readHistory st userId of
        HCorrupt \<Rightarrow> (False, st)
      | HEntries history \<Rightarrow>
          let history = history @ [entryOf indexData];
              cutoffDate = now clk - MAX_HISTORY_DAYS * msPerDay;
              history = filter (\<lambda>entry. h_timestamp entry > cutoffDate) history;
              history = dedupeDailyEntries toDateString history
          in if quotaExceeded st then (False, st)
             else (True, st\<lparr>historyItems := (historyItems st)(userId \<mapsto> HEntries history)\<rparr>))"

definition saveCurrentIndex :: "string \<Rightarrow> indexData \<Rightarrow> storage \<Rightarrow> bool \<times> storage" where
  "saveCurrentIndex userId indexData st =
     (if quotaExceeded st then (False, st)
      else (True, st\<lparr>currentIndexItems := (currentIndexItems st)(userId \<mapsto> indexData)\<rparr>))"

definition getCurrentIndex :: "storage \<Rightarrow> string \<Rightarrow> indexData option" where
  "getCurrentIndex st userId = currentIndexItems st userId"

subsection \<open>Trend and comparison analyser\<close>

definition average :: "int list \<Rightarrow> rat" where
  \<comment> \<open>\<open>xs.reduce((sum, s) => sum + s, 0) / xs.length\<close>\<close>
  "average xs = jsDiv (fold (\<lambda>s sum. jsAdd sum (of_int s)) xs 0) (of_nat (length xs))"

definition calculateTrend :: "clock \<Rightarrow> storage \<Rightarrow> string \<Rightarrow> int \<Rightarrow> string" where
  "calculateTrend clk st userId currentScore =
     (let history = getIndexHistory clk st userId 14
      in if length history < 3 then ''stable''
         else
           let recentScores = map h_score (sliceLast 5 history);
               olderScores = map h_score (take (max 1 (length history - 5)) history);
               recentAvg = average recentScores;
               olderAvg = average olderScores;
               diff = jsSub recentAvg olderAvg
           in if diff > 5 then ''improving''
              else if diff < - 5 then ''declining''
              else ''stable'')"

definition toFixed1 :: "rat \<Rightarrow> rat" where
  \<comment> \<open>\<open>parseFloat(x.toFixed(1))\<close>: \<open>toFixed\<close> takes the decimal with one digit that is
      nearest to the exact value of the double, a tie going away from zero, and
      \<open>parseFloat\<close> rounds that decimal to a double.\<close>
  "toFixed1 x = (if x < 0 then fl (- (of_int \<lfloor>- x * 10 + 1 / 2\<rfloor> / 10))
                 else fl (of_int \<lfloor>x * 10 + 1 / 2\<rfloor> / 10))"

definition previousEntriesOf :: "clock \<Rightarrow> int \<Rightarrow> entry list \<Rightarrow> entry list" where
  \<comment> \<open>\<open>history.filter(entry => new Date(entry.timestamp) < cutoffDate)\<close> in
      \<open>compareWithPrevious\<close>\<close>
  "previousEntriesOf clk days history =
     (let cutoffDate = now clk - days * msPerDay
      in filter (\<lambda>entry. h_timestamp entry < cutoffDate) history)"

definition compareWithPrevious :: "clock \<Rightarrow> storage \<Rightarrow> string \<Rightarrow> int \<Rightarrow> comparison option" where
  "compareWithPrevious clk st userId days =
     (let history = getIndexHistory clk st userId (days * 2)
      in if length history < 2 then None
         else
           let previousEntries = previousEntriesOf clk days history
           in if length previousEntries = 0 then None
              else
                let currentEntry = last history;
                    previousEntry = last previousEntries;
                    difference = h_score currentEntry - h_score previousEntry;
                    percentChange =
                      (if h_score previousEntry > 0
                       then toFixed1 (jsMul (jsDiv (of_int difference)
                                               (of_int (h_score previousEntry))) 100)
                       else 0)
                in Some \<lparr>ccurrent = h_score currentEntry, cprevious = h_score previousEntry,
                          cdifference = difference, cpercentChange = percentChange,
                          ctrend = (if difference > 0 then ''improving''
                                    else if difference < 0 then ''declining'' else ''stable'')\<rparr>)"

definition getPeriodComparisons :: "clock \<Rightarrow> storage \<Rightarrow> string \<Rightarrow> int \<Rightarrow> period_data" where
  "getPeriodComparisons clk st userId currentScore =
     \<lparr>weekly = compareWithPrevious clk st userId 7,
      monthly = compareWithPrevious clk st userId 30\<rparr>"

subsection \<open>The entry point\<close>

definition calculateIndexTry ::
    "(int \<Rightarrow> 'd) \<Rightarrow> clock \<Rightarrow> string \<Rightarrow> storage \<Rightarrow> js_error + (indexData \<times> storage)" where
  \<comment> \<open>The \<open>try\<close> block of \<open>calculateIndex\<close>: \<open>Inl\<close> is an exception that reaches its
      \<open>catch\<close>.\<close>
  "calculateIndexTry toDateString clk userId st =
     (let workoutHistory = getWorkoutHistory st;
          validatedData = validateMetricInputs workoutHistory
      in if \<not> isValid validatedData then Inr (getDefaultIndex clk, st)
         else
           case calculateStandardizedComponents clk (elements workoutHistory) of
             Inl e \<Rightarrow> Inl e
           | Inr c \<Rightarrow>
               let score' = calculateStandardizedScore c;
                   level' = getStandardizedPerformanceLevel score';
                   trend' = calculateTrend clk st userId score';
                   periodData' = getPeriodComparisons clk st userId score';
                   indexData =
                     \<lparr>score = score', displayScore = score', level = level', components = c,
                      trend = trend', lastUpdated = now clk,
                      workoutCount = length (elements workoutHistory),
                      periodData = periodData', benchmarksMet = Some (getBenchmarkStatus c)\<rparr>;
                   st1 = snd (saveCurrentIndex userId indexData st);
                   st2 = snd (saveToHistory toDateString clk userId indexData st1)
               in Inr (indexData, st2))"

definition calculateIndex ::
    "(int \<Rightarrow> 'd) \<Rightarrow> clock \<Rightarrow> string \<Rightarrow> storage \<Rightarrow> indexData \<times> storage" where
  "calculateIndex toDateString clk userId st =
     (case calculateIndexTry toDateString clk userId st of
        Inl error \<Rightarrow> (getDefaultIndex clk, st)
      | Inr result \<Rightarrow> result)"

subsection \<open>The scope of the model\<close>





subsection \<open>The fallback biometrics of the specification\<close>



subsection \<open>Example inputs\<close>

definition utcDay :: "int \<Rightarrow> int" where
  \<comment> \<open>\<open>toDateString\<close> of a browser whose time zone is UTC: the number of the calendar day.\<close>
  "utcDay t = t div msPerDay"

definition exampleClock :: clock where
  \<comment> \<open>4 October 2024, 00:00 UTC, with the month boundaries of that day.\<close>
  "exampleClock =
     \<lparr>now = 20000 * msPerDay, thirtyDaysAgo = 19970 * msPerDay,
      currentMonthStart = 19997 * msPerDay, previousMonthStart = 19967 * msPerDay,
      previousMonthEnd = 19996 * msPerDay\<rparr>"

definition emptyStorage :: storage where
  "emptyStorage =
     \<lparr>workoutHistoryItem = Absent, currentIndexItems = (\<lambda>userId. None),
      historyItems = (\<lambda>userId. None), quotaExceeded = False\<rparr>"

definition blankWorkout :: workout where
  "blankWorkout =
     \<lparr>date = NoDate, wtimestamp = NoDate, calories = None, caloriesBurned = None,
      heartRate = None, age = None, weight = None, gender = None, duration = None,
      activity = None, workoutType = None, wtype = None\<rparr>"

definition seniorRun :: workout where
  \<comment> \<open>A one-hour run of a 70-year-old man of 70 kg.\<close>
  "seniorRun =
     blankWorkout\<lparr>date := DateAt (19999 * msPerDay), calories := Some 600, age := Some 70,
       weight := Some 70, gender := Some ''male'', duration := Some 60,
       activity := Some ''running''\<rparr>"

definition noCaloriesStorage :: storage where
  \<comment> \<open>One stored workout, dated yesterday, without a calorie count.\<close>
  "noCaloriesStorage =
     emptyStorage\<lparr>workoutHistoryItem :=
       Array [Some (blankWorkout\<lparr>date := DateAt (19999 * msPerDay)\<rparr>)]\<rparr>"

definition staleHistoryStorage :: storage where
  \<comment> \<open>Two snapshots of the user, ten and nine days old.\<close>
  "staleHistoryStorage =
     emptyStorage\<lparr>historyItems := (\<lambda>userId. None)(''default'' \<mapsto> HEntries
       [\<lparr>h_score = 60, h_level = ''Intermediate'',
         h_components = \<lparr>consistency = 60, performance = 60, improvement = 60, variety = 60, intensity = 60\<rparr>,
         h_trend = ''stable'', h_timestamp = 19990 * msPerDay, h_workoutCount = 5\<rparr>,
        \<lparr>h_score = 66, h_level = ''Intermediate'',
         h_components = \<lparr>consistency = 66, performance = 66, improvement = 66, variety = 66, intensity = 66\<rparr>,
         h_trend = ''stable'', h_timestamp = 19991 * msPerDay, h_workoutCount = 6\<rparr>])\<rparr>"

definition snapshotAt :: "int \<Rightarrow> int \<Rightarrow> entry" where
  \<comment> \<open>A history entry with the given score and timestamp.\<close>
  "snapshotAt s t =
     \<lparr>h_score = s, h_level = getStandardizedPerformanceLevel s,
      h_components = \<lparr>consistency = s, performance = s, improvement = s, variety = s,
                       intensity = s\<rparr>,
      h_trend = ''stable'', h_timestamp = t, h_workoutCount = 3\<rparr>"

definition unsortedHistoryStorage :: storage where
  \<comment> \<open>A stored history that is not in order, with two entries of one day and one entry
      that is a hundred days old.\<close>
  "unsortedHistoryStorage =
     emptyStorage\<lparr>historyItems := (\<lambda>userId. None)(''default'' \<mapsto> HEntries
       [snapshotAt 50 (19998 * msPerDay), snapshotAt 40 (19900 * msPerDay),
        snapshotAt 55 (19995 * msPerDay), snapshotAt 52 (19998 * msPerDay + 3600000)])\<rparr>"

definition indexAt :: "int \<Rightarrow> int \<Rightarrow> indexData" where
  \<comment> \<open>A computed index with the given score and time.\<close>
  "indexAt s t = (getDefaultIndex exampleClock)\<lparr>score := s, displayScore := s,
     level := getStandardizedPerformanceLevel s, lastUpdated := t\<rparr>"

definition laterClock :: clock where
  \<comment> \<open>Two hours after \<open>exampleClock\<close>.\<close>
  "laterClock = exampleClock\<lparr>now := 20000 * msPerDay + 7200000\<rparr>"

definition afterFirstAppend :: storage where
  "afterFirstAppend =
     snd (saveToHistory utcDay exampleClock ''default'' (indexAt 60 (20000 * msPerDay))
            unsortedHistoryStorage)"

definition afterSecondAppend :: storage where
  "afterSecondAppend =
     snd (saveToHistory utcDay laterClock ''default'' (indexAt 64 (20000 * msPerDay + 7200000))
            afterFirstAppend)"

definition afterLaterFirst :: storage where
  \<comment> \<open>The later of the two snapshots of the day is appended first.\<close>
  "afterLaterFirst =
     snd (saveToHistory utcDay laterClock ''default'' (indexAt 64 (20000 * msPerDay + 7200000))
            unsortedHistoryStorage)"

definition afterEarlierSecond :: storage where
  "afterEarlierSecond =
     snd (saveToHistory utcDay laterClock ''default'' (indexAt 60 (20000 * msPerDay))
            afterLaterFirst)"

definition seniorStorage :: storage where
  \<comment> \<open>One stored workout with a calorie count and a date.\<close>
  "seniorStorage = emptyStorage\<lparr>workoutHistoryItem := Array [Some seniorRun]\<rparr>"






subsection \<open>The loop invariant of \<open>dedupeDailyEntries\<close>\<close>

text \<open>
  After the entries of the set \<open>S\<close> have been visited, the map \<open>m\<close> has one pair for
  each calendar day of \<open>S\<close>, and the entry of a day is an entry of \<open>S\<close> of that day with
  the greatest timestamp.
\<close>

definition dailyInv :: "(int \<Rightarrow> 'd) \<Rightarrow> entry set \<Rightarrow> ('d \<times> entry) list \<Rightarrow> bool" where
  "dailyInv f S m \<longleftrightarrow>
     distinct (map fst m)
     \<and> (\<forall>k e. map_of m k = Some e \<longrightarrow> k = f (h_timestamp e) \<and> e \<in> S)
     \<and> (\<forall>x \<in> S. \<exists>e. map_of m (f (h_timestamp x)) = Some e \<and> h_timestamp x \<le> h_timestamp e)"

section \<open>Properties\<close>

subsection \<open>Rounding to a double\<close>

lemma two_powi_mono: "k \<le> l \<Longrightarrow> (2::rat) powi k \<le> 2 powi l"
  by (rule power_int_increasing) simp_all

lemma two_powi_strict_mono: "k < l \<Longrightarrow> (2::rat) powi k < 2 powi l"
  by (rule power_int_strict_increasing) simp_all

lemma two_powi_Suc: "(2::rat) powi (k + 1) = 2 * 2 powi k"
  by (simp add: power_int_add_1')

lemma two_powi_diff: "(2::rat) powi (k - l) = 2 powi k / 2 powi l"
  by (rule power_int_diff) simp

lemma two_powi_add: "(2::rat) powi (k + l) = 2 powi k * 2 powi l"
  by (rule power_int_add) simp

lemma bitlen_bounds_rat:
  assumes "0 < p"
  shows "(2::rat) powi (bitlen p - 1) \<le> of_int p" and "(of_int p :: rat) < 2 powi bitlen p"
proof -
  from assms have b: "1 \<le> bitlen p"
    using bitlen_eq_zero_iff [of p] bitlen_nonneg [of p] by linarith
  from bitlen_bounds [OF assms] have lo: "2 ^ nat (bitlen p - 1) \<le> p" and hi: "p < 2 ^ nat (bitlen p)"
    by simp_all
  have "(2::rat) powi (bitlen p - 1) = 2 ^ nat (bitlen p - 1)"
    using b by (simp add: power_int_def)
  also have "\<dots> = of_int (2 ^ nat (bitlen p - 1))" by simp
  also have "\<dots> \<le> of_int p" using lo by (simp only: of_int_le_iff)
  finally show "(2::rat) powi (bitlen p - 1) \<le> of_int p" .
  have "(of_int p :: rat) < of_int (2 ^ nat (bitlen p))" using hi by (simp only: of_int_less_iff)
  also have "\<dots> = 2 ^ nat (bitlen p)" by simp
  also have "\<dots> = 2 powi bitlen p" using b by (simp add: power_int_def)
  finally show "(of_int p :: rat) < 2 powi bitlen p" .
qed

lemma ilog2_bounds:
  assumes "x \<noteq> 0"
  shows "2 powi ilog2 x \<le> \<bar>x\<bar>" and "\<bar>x\<bar> < 2 powi (ilog2 x + 1)"
proof -
  define p where "p = fst (quotient_of \<bar>x\<bar>)"
  define q where "q = snd (quotient_of \<bar>x\<bar>)"
  define d where "d = bitlen p - bitlen q"
  have pq: "quotient_of \<bar>x\<bar> = (p, q)" by (simp add: p_def q_def)
  then have q: "0 < q" by (rule quotient_of_denom_pos)
  from pq have x: "\<bar>x\<bar> = of_int p / of_int q" by (rule quotient_of_div)
  have "0 < \<bar>x\<bar>" using assms by simp
  with x q have p: "0 < p" by (simp add: zero_less_divide_iff)
  have qr: "(0::rat) < of_int q" using q by simp
  have pr: "(0::rat) < of_int p" using p by simp
  note bp = bitlen_bounds_rat [OF p] and bq = bitlen_bounds_rat [OF q]
  have lo: "2 powi (d - 1) < \<bar>x\<bar>"
  proof -
    have "(2::rat) powi (d - 1) = 2 powi (bitlen p - 1) / 2 powi bitlen q"
      unfolding d_def by (simp add: two_powi_diff [symmetric] algebra_simps)
    also have "\<dots> \<le> of_int p / 2 powi bitlen q"
      using bp(1) by (simp add: divide_right_mono)
    also have "\<dots> < of_int p / of_int q"
      using bq(2) pr qr by (intro divide_strict_left_mono) simp_all
    finally show ?thesis by (simp only: x)
  qed
  have hi: "\<bar>x\<bar> < 2 powi (d + 1)"
  proof -
    have pos: "(0::rat) < 2 powi (bitlen q - 1)" by simp
    have "of_int p / (of_int q :: rat) \<le> of_int p / 2 powi (bitlen q - 1)"
      using bq(1) pr pos qr by (intro divide_left_mono mult_pos_pos) simp_all
    also have "\<dots> < 2 powi bitlen p / 2 powi (bitlen q - 1)"
      using bp(2) pos by (simp add: divide_strict_right_mono)
    also have "\<dots> = 2 powi (d + 1)"
      unfolding d_def by (simp add: two_powi_diff [symmetric] algebra_simps)
    finally show ?thesis by (simp only: x)
  qed
  have e: "ilog2 x = (if 2 powi d \<le> \<bar>x\<bar> then d else d - 1)"
    by (simp add: ilog2_def Let_def p_def q_def d_def)
  show "2 powi ilog2 x \<le> \<bar>x\<bar>"
    using lo by (simp add: e)
  show "\<bar>x\<bar> < 2 powi (ilog2 x + 1)"
    using hi by (simp add: e not_le)
qed

lemma ilog2_minus: "ilog2 (- x) = ilog2 x"
  by (simp add: ilog2_def)

lemma ilog2_mono:
  assumes "0 < x" and "x \<le> y"
  shows "ilog2 x \<le> ilog2 y"
proof (rule ccontr)
  assume "\<not> ilog2 x \<le> ilog2 y"
  then have "ilog2 y + 1 \<le> ilog2 x" by simp
  then have "(2::rat) powi (ilog2 y + 1) \<le> 2 powi ilog2 x" by (rule two_powi_mono)
  also have "\<dots> \<le> \<bar>x\<bar>" using assms by (intro ilog2_bounds) simp
  also have "\<dots> \<le> \<bar>y\<bar>" using assms by simp
  also have "\<dots> < 2 powi (ilog2 y + 1)" using assms by (intro ilog2_bounds) simp
  finally show False by simp
qed

lemma roundEven_cases:
  "roundEven t = \<lfloor>t\<rfloor> \<and> t - of_int \<lfloor>t\<rfloor> \<le> 1 / 2
   \<or> roundEven t = \<lfloor>t\<rfloor> + 1 \<and> 1 / 2 \<le> t - of_int \<lfloor>t\<rfloor>"
  by (simp add: roundEven_def Let_def)

lemma roundEven_error: "\<bar>of_int (roundEven t) - t\<bar> \<le> 1 / 2"
proof -
  have "of_int \<lfloor>t\<rfloor> \<le> t" and "t < of_int \<lfloor>t\<rfloor> + 1"
    by linarith+
  with roundEven_cases [of t] show ?thesis
    by (auto simp: abs_le_iff)
qed

lemma roundEven_of_int: "roundEven (of_int n) = n"
  by (simp add: roundEven_def)

lemma roundEven_mono:
  assumes "t \<le> u"
  shows "roundEven t \<le> roundEven u"
proof (cases "\<lfloor>t\<rfloor> = \<lfloor>u\<rfloor>")
  case True
  have "t - of_int \<lfloor>t\<rfloor> \<le> u - of_int \<lfloor>t\<rfloor>" using assms by simp
  then show ?thesis
    unfolding roundEven_def Let_def True [symmetric]
    by (simp add: not_less)
next
  case False
  with floor_mono [OF assms] have "\<lfloor>t\<rfloor> + 1 \<le> \<lfloor>u\<rfloor>" by simp
  moreover have "roundEven t \<le> \<lfloor>t\<rfloor> + 1"
    using roundEven_cases [of t] by auto
  moreover have "\<lfloor>u\<rfloor> \<le> roundEven u"
    using roundEven_cases [of u] by auto
  ultimately show ?thesis by linarith
qed

lemma fl_zero: "fl 0 = 0"
  by (simp add: fl_def)

lemma fl_eq:
  "x \<noteq> 0 \<Longrightarrow>
     fl x = of_int (roundEven (x / 2 powi (ilog2 x - 52))) * 2 powi (ilog2 x - 52)"
  by (simp add: fl_def Let_def)

lemma fl_error:
  assumes "x \<noteq> 0"
  shows "\<bar>fl x - x\<bar> \<le> 2 powi (ilog2 x - 53)"
proof -
  define q :: rat where "q = 2 powi (ilog2 x - 52)"
  have q: "0 < q" by (simp add: q_def)
  have "fl x = of_int (roundEven (x / q)) * q"
    using assms by (simp add: fl_eq q_def)
  then have "fl x - x = (of_int (roundEven (x / q)) - x / q) * q"
    using q by (simp add: algebra_simps)
  then have "\<bar>fl x - x\<bar> = \<bar>of_int (roundEven (x / q)) - x / q\<bar> * q"
    using q by (simp add: abs_mult)
  also have "\<dots> \<le> 1 / 2 * q"
    using roundEven_error [of "x / q"] q by (intro mult_right_mono) simp_all
  also have "\<dots> = 2 powi (ilog2 x - 53)"
  proof -
    have "q = 2 powi ((ilog2 x - 53) + 1)" by (simp add: q_def)
    then have "q = 2 * 2 powi (ilog2 x - 53)" by (simp only: two_powi_Suc)
    then show ?thesis by simp
  qed
  finally show ?thesis .
qed

lemma fl_error_bound:
  assumes "\<bar>x\<bar> \<le> 2 powi k"
  shows "\<bar>fl x - x\<bar> \<le> 2 powi (k - 53)"
proof (cases "x = 0")
  case True
  then show ?thesis by (simp add: fl_zero)
next
  case False
  have "ilog2 x \<le> k"
  proof (rule ccontr)
    assume "\<not> ilog2 x \<le> k"
    then have "k < ilog2 x" by simp
    then have "(2::rat) powi k < 2 powi ilog2 x" by (rule two_powi_strict_mono)
    also have "\<dots> \<le> \<bar>x\<bar>" using False by (rule ilog2_bounds)
    finally show False using assms by simp
  qed
  then have "(2::rat) powi (ilog2 x - 53) \<le> 2 powi (k - 53)"
    by (intro two_powi_mono) simp
  with fl_error [OF False] show ?thesis by linarith
qed

lemma fl_minus: "fl (- x) = - fl x"
proof (cases "x = 0")
  case True
  then show ?thesis by (simp add: fl_zero)
next
  case False
  define q :: rat where "q = 2 powi (ilog2 x - 52)"
  have odd: "roundEven (- t) = - roundEven t" for t
  proof (cases "t = of_int \<lfloor>t\<rfloor>")
    case True
    have "roundEven (- of_int \<lfloor>t\<rfloor>) = - roundEven (of_int \<lfloor>t\<rfloor> :: rat)"
      using roundEven_of_int [of "\<lfloor>t\<rfloor>"] roundEven_of_int [of "- \<lfloor>t\<rfloor>"] by simp
    then show ?thesis
      using True by simp
  next
    case False
    have lo: "of_int \<lfloor>t\<rfloor> < t"
    proof (rule ccontr)
      assume "\<not> of_int \<lfloor>t\<rfloor> < t"
      then have "t \<le> of_int \<lfloor>t\<rfloor>" by (simp only: not_less)
      moreover have "of_int \<lfloor>t\<rfloor> \<le> t" by (rule of_int_floor_le)
      ultimately have "t = of_int \<lfloor>t\<rfloor>" by (rule order.antisym)
      with False show False by (rule notE)
    qed
    have hi: "t < of_int \<lfloor>t\<rfloor> + 1" by linarith
    have fm: "\<lfloor>- t\<rfloor> = - \<lfloor>t\<rfloor> - 1"
      by (rule floor_unique) (use lo hi in simp_all)
    show ?thesis
      unfolding roundEven_def Let_def fm
      using lo hi by (auto simp: algebra_simps)
  qed
  show ?thesis
    using False by (simp add: fl_eq ilog2_minus odd)
qed

lemma fl_pos_ge:
  assumes "0 < x"
  shows "2 powi ilog2 x \<le> fl x"
proof -
  define q :: rat where "q = 2 powi (ilog2 x - 52)"
  have q: "0 < q" by (simp add: q_def)
  have x: "x \<noteq> 0" using assms by simp
  have e: "2 powi ilog2 x = 2 ^ 52 * q"
  proof -
    have "ilog2 x = 52 + (ilog2 x - 52)" by simp
    then have "(2::rat) powi ilog2 x = 2 powi (52 + (ilog2 x - 52))" by (rule arg_cong)
    also have "\<dots> = 2 powi 52 * q" unfolding q_def by (rule two_powi_add)
    finally show ?thesis by simp
  qed
  have "2 powi ilog2 x \<le> x" using ilog2_bounds(1) [OF x] assms by simp
  then have "2 ^ 52 \<le> x / q" using q by (simp add: e pos_le_divide_eq)
  then have "(of_int (2 ^ 52) :: rat) \<le> x / q" by simp
  then have "roundEven (of_int (2 ^ 52)) \<le> roundEven (x / q)" by (rule roundEven_mono)
  then have "(2 ^ 52 :: int) \<le> roundEven (x / q)" by (simp only: roundEven_of_int)
  then have "(of_int (2 ^ 52) :: rat) \<le> of_int (roundEven (x / q))" by (simp only: of_int_le_iff)
  then have "2 ^ 52 * q \<le> of_int (roundEven (x / q)) * q"
    using q by (intro mult_right_mono) simp_all
  then show ?thesis
    using x by (simp add: fl_eq e q_def)
qed

lemma fl_pos_le:
  assumes "0 < x"
  shows "fl x \<le> 2 powi (ilog2 x + 1)"
proof -
  define q :: rat where "q = 2 powi (ilog2 x - 52)"
  have q: "0 < q" by (simp add: q_def)
  have x: "x \<noteq> 0" using assms by simp
  have e: "2 powi (ilog2 x + 1) = 2 ^ 53 * q"
  proof -
    have "ilog2 x + 1 = 53 + (ilog2 x - 52)" by simp
    then have "(2::rat) powi (ilog2 x + 1) = 2 powi (53 + (ilog2 x - 52))" by (rule arg_cong)
    also have "\<dots> = 2 powi 53 * q" unfolding q_def by (rule two_powi_add)
    finally show ?thesis by simp
  qed
  have "x < 2 powi (ilog2 x + 1)" using ilog2_bounds(2) [OF x] assms by simp
  then have "x / q \<le> 2 ^ 53" using q by (simp add: e pos_divide_le_eq)
  then have "x / q \<le> (of_int (2 ^ 53) :: rat)" by simp
  then have "roundEven (x / q) \<le> roundEven (of_int (2 ^ 53))" by (rule roundEven_mono)
  then have "roundEven (x / q) \<le> (2 ^ 53 :: int)" by (simp only: roundEven_of_int)
  then have "(of_int (roundEven (x / q)) :: rat) \<le> of_int (2 ^ 53)" by (simp only: of_int_le_iff)
  then have "of_int (roundEven (x / q)) * q \<le> 2 ^ 53 * q"
    using q by (intro mult_right_mono) simp_all
  then show ?thesis
    using x by (simp add: fl_eq e q_def)
qed

lemma fl_mono_pos:
  assumes "0 < x" and "x \<le> y"
  shows "fl x \<le> fl y"
proof (cases "ilog2 x = ilog2 y")
  case True
  define q :: rat where "q = 2 powi (ilog2 x - 52)"
  have q: "0 < q" by (simp add: q_def)
  have "x / q \<le> y / q" using assms q by (simp add: divide_right_mono)
  then have "roundEven (x / q) \<le> roundEven (y / q)" by (rule roundEven_mono)
  then have "(of_int (roundEven (x / q)) :: rat) * q \<le> of_int (roundEven (y / q)) * q"
    using q by (intro mult_right_mono) simp_all
  then show ?thesis
    using assms True by (simp add: fl_eq q_def)
next
  case False
  with ilog2_mono [OF assms] have "ilog2 x + 1 \<le> ilog2 y" by simp
  then have "(2::rat) powi (ilog2 x + 1) \<le> 2 powi ilog2 y" by (rule two_powi_mono)
  moreover have "fl x \<le> 2 powi (ilog2 x + 1)" using assms(1) by (rule fl_pos_le)
  moreover have "2 powi ilog2 y \<le> fl y" using assms by (intro fl_pos_ge) simp
  ultimately show ?thesis by linarith
qed

lemma fl_nonneg: "0 \<le> x \<Longrightarrow> 0 \<le> fl x"
proof (cases "x = 0")
  case True
  then show ?thesis by (simp add: fl_zero)
next
  case False
  assume "0 \<le> x"
  with False have "0 < x" by simp
  then have "2 powi ilog2 x \<le> fl x" by (rule fl_pos_ge)
  moreover have "(0::rat) < 2 powi ilog2 x" by simp
  ultimately show ?thesis by linarith
qed

lemma fl_mono:
  assumes "x \<le> y"
  shows "fl x \<le> fl y"
proof -
  consider (pos) "0 < x" | (neg) "y < 0" | (mid) "x \<le> 0" "0 \<le> y"
    using assms by linarith
  then show ?thesis
  proof cases
    case pos
    then show ?thesis using assms by (rule fl_mono_pos)
  next
    case neg
    then have "0 < - y" and "- y \<le> - x" using assms by simp_all
    then have "fl (- y) \<le> fl (- x)" by (rule fl_mono_pos)
    then show ?thesis by (simp add: fl_minus)
  next
    case mid
    then have "0 \<le> fl (- x)" and "0 \<le> fl y" by (simp_all add: fl_nonneg)
    then show ?thesis by (simp add: fl_minus)
  qed
qed

lemma fl_near:
  assumes "\<bar>x - y\<bar> \<le> e" and "\<bar>x\<bar> \<le> 128"
  shows "\<bar>fl x - y\<bar> \<le> e + 1 / 2 ^ 46"
proof -
  have "\<bar>x\<bar> \<le> 2 powi 7" using assms(2) by simp
  then have "\<bar>fl x - x\<bar> \<le> 2 powi (7 - 53)" by (rule fl_error_bound)
  then have "\<bar>fl x - x\<bar> \<le> 1 / 2 ^ 46" by (simp add: power_int_minus_divide)
  with assms(1) show ?thesis by linarith
qed

subsection \<open>Rounding\<close>

lemma js_round_of_int: "js_round (of_int n) = n"
  unfolding js_round_def by linarith

lemma js_round_mono: "x \<le> y \<Longrightarrow> js_round x \<le> js_round y"
  unfolding js_round_def by (simp add: floor_mono)

lemma roundClamp_of_int: "0 \<le> n \<Longrightarrow> n \<le> 100 \<Longrightarrow> roundClamp (of_int n) = n"
proof -
  assume "0 \<le> n" and "n \<le> 100"
  then have "max 0 (min 100 (of_int n :: rat)) = of_int n"
    by (simp add: max_def min_def)
  then show ?thesis
    by (simp only: roundClamp_def js_round_of_int)
qed

lemma roundClamp_mono: "x \<le> y \<Longrightarrow> roundClamp x \<le> roundClamp y"
  unfolding roundClamp_def by (rule js_round_mono) (simp add: max_def min_def)


subsection \<open>The aggregate score\<close>

lemma weight_values:
  "consistency weights = 1 / 4" "performance weights = 1 / 4"
  "improvement weights = 3602879701896397 / 18014398509481984"
  "variety weights = 5404319552844595 / 36028797018963968"
  "intensity weights = 5404319552844595 / 36028797018963968"
  by code_simp+

lemma weightedScore_near:
  fixes c p i v n :: int
  assumes "0 \<le> c" "c \<le> 100" "0 \<le> p" "p \<le> 100" "0 \<le> i" "i \<le> 100"
    "0 \<le> v" "v \<le> 100" "0 \<le> n" "n \<le> 100"
  shows "\<bar>jsAdd (jsAdd (jsAdd (jsAdd
              (jsMul (of_int c) (1 / 4))
              (jsMul (of_int p) (1 / 4)))
              (jsMul (of_int i) (3602879701896397 / 18014398509481984)))
              (jsMul (of_int v) (5404319552844595 / 36028797018963968)))
              (jsMul (of_int n) (5404319552844595 / 36028797018963968))
          - of_int (5 * c + 5 * p + 4 * i + 3 * v + 3 * n) / 20\<bar> \<le> 12 / 2 ^ 46"
proof -
  define C P I V N :: rat where "C = of_int c" and "P = of_int p" and "I = of_int i"
    and "V = of_int v" and "N = of_int n"
  have r: "0 \<le> C" "C \<le> 100" "0 \<le> P" "P \<le> 100" "0 \<le> I" "I \<le> 100"
    "0 \<le> V" "V \<le> 100" "0 \<le> N" "N \<le> 100"
    using assms by (simp_all add: C_def P_def I_def V_def N_def)
  define d :: rat where "d = 1 / 2 ^ 46"
  have d: "0 < d" "d \<le> 1 / 1000" by (simp_all add: d_def)
  have near: "\<bar>fl x - y\<bar> \<le> e + d" if "\<bar>x - y\<bar> \<le> e" "\<bar>x\<bar> \<le> 128" for x y e
    unfolding d_def using that by (rule fl_near)
  define a1 where "a1 = fl (C * (1 / 4))"
  define a2 where "a2 = fl (P * (1 / 4))"
  define a3 where "a3 = fl (I * (3602879701896397 / 18014398509481984))"
  define a4 where "a4 = fl (V * (5404319552844595 / 36028797018963968))"
  define a5 where "a5 = fl (N * (5404319552844595 / 36028797018963968))"
  define s1 where "s1 = fl (a1 + a2)"
  define s2 where "s2 = fl (s1 + a3)"
  define s3 where "s3 = fl (s2 + a4)"
  define s4 where "s4 = fl (s3 + a5)"
  have a1: "\<bar>a1 - C / 4\<bar> \<le> 0 + d"
    unfolding a1_def using r by (intro near) simp_all
  have a2: "\<bar>a2 - P / 4\<bar> \<le> 0 + d"
    unfolding a2_def using r by (intro near) simp_all
  have a3: "\<bar>a3 - I / 5\<bar> \<le> d + d"
    unfolding a3_def
  proof (rule near)
    show "\<bar>I * (3602879701896397 / 18014398509481984) - I / 5\<bar> \<le> d"
      unfolding d_def using r by (simp add: abs_le_iff, linarith?)
    show "\<bar>I * (3602879701896397 / 18014398509481984)\<bar> \<le> 128"
      using r by (simp add: abs_le_iff, linarith?)
  qed
  have a4: "\<bar>a4 - 3 * V / 20\<bar> \<le> d + d"
    unfolding a4_def
  proof (rule near)
    show "\<bar>V * (5404319552844595 / 36028797018963968) - 3 * V / 20\<bar> \<le> d"
      unfolding d_def using r by (simp add: abs_le_iff, linarith?)
    show "\<bar>V * (5404319552844595 / 36028797018963968)\<bar> \<le> 128"
      using r by (simp add: abs_le_iff, linarith?)
  qed
  have a5: "\<bar>a5 - 3 * N / 20\<bar> \<le> d + d"
    unfolding a5_def
  proof (rule near)
    show "\<bar>N * (5404319552844595 / 36028797018963968) - 3 * N / 20\<bar> \<le> d"
      unfolding d_def using r by (simp add: abs_le_iff, linarith?)
    show "\<bar>N * (5404319552844595 / 36028797018963968)\<bar> \<le> 128"
      using r by (simp add: abs_le_iff, linarith?)
  qed
  have s1: "\<bar>s1 - (C / 4 + P / 4)\<bar> \<le> 2 * d + d"
    unfolding s1_def
  proof (rule near)
    show "\<bar>a1 + a2 - (C / 4 + P / 4)\<bar> \<le> 2 * d" using a1 a2 by linarith
    show "\<bar>a1 + a2\<bar> \<le> 128" using a1 a2 r d by linarith
  qed
  have s2: "\<bar>s2 - (C / 4 + P / 4 + I / 5)\<bar> \<le> 5 * d + d"
    unfolding s2_def
  proof (rule near)
    show "\<bar>s1 + a3 - (C / 4 + P / 4 + I / 5)\<bar> \<le> 5 * d" using s1 a3 by linarith
    show "\<bar>s1 + a3\<bar> \<le> 128" using s1 a3 r d by linarith
  qed
  have s3: "\<bar>s3 - (C / 4 + P / 4 + I / 5 + 3 * V / 20)\<bar> \<le> 8 * d + d"
    unfolding s3_def
  proof (rule near)
    show "\<bar>s2 + a4 - (C / 4 + P / 4 + I / 5 + 3 * V / 20)\<bar> \<le> 8 * d"
      using s2 a4 by linarith
    show "\<bar>s2 + a4\<bar> \<le> 128" using s2 a4 r d by linarith
  qed
  have s4: "\<bar>s4 - (C / 4 + P / 4 + I / 5 + 3 * V / 20 + 3 * N / 20)\<bar> \<le> 11 * d + d"
    unfolding s4_def
  proof (rule near)
    show "\<bar>s3 + a5 - (C / 4 + P / 4 + I / 5 + 3 * V / 20 + 3 * N / 20)\<bar> \<le> 11 * d"
      using s3 a5 by linarith
    show "\<bar>s3 + a5\<bar> \<le> 128" using s3 a5 r d by linarith
  qed
  have e: "of_int (5 * c + 5 * p + 4 * i + 3 * v + 3 * n) / 20
        = C / 4 + P / 4 + I / 5 + 3 * V / 20 + 3 * N / 20"
    by (simp add: C_def P_def I_def V_def N_def)
  have t: "jsAdd (jsAdd (jsAdd (jsAdd
              (jsMul (of_int c) (1 / 4))
              (jsMul (of_int p) (1 / 4)))
              (jsMul (of_int i) (3602879701896397 / 18014398509481984)))
              (jsMul (of_int v) (5404319552844595 / 36028797018963968)))
              (jsMul (of_int n) (5404319552844595 / 36028797018963968)) = s4"
    by (simp only: jsAdd_def jsMul_def s4_def s3_def s2_def s1_def a1_def a2_def a3_def a4_def
        a5_def C_def P_def I_def V_def N_def)
  have "12 / 2 ^ 46 = 11 * d + d" by (simp add: d_def)
  with s4 show ?thesis
    by (simp only: t e)
qed

lemma specScore_div:
  assumes "0 \<le> consistency c" "consistency c \<le> 100" "0 \<le> performance c" "performance c \<le> 100"
    "0 \<le> improvement c" "improvement c \<le> 100" "0 \<le> variety c" "variety c \<le> 100"
    "0 \<le> intensity c" "intensity c \<le> 100"
  shows "specScore c =
           (5 * consistency c + 5 * performance c + 4 * improvement c + 3 * variety c
            + 3 * intensity c + 10) div 20"
proof -
  let ?k = "5 * consistency c + 5 * performance c + 4 * improvement c + 3 * variety c
            + 3 * intensity c"
  let ?w = "25 / 100 * of_int (consistency c) + 25 / 100 * of_int (performance c)
            + 20 / 100 * of_int (improvement c) + 15 / 100 * of_int (variety c)
            + 15 / 100 * of_int (intensity c) :: rat"
  have w: "?w = of_int ?k / 20"
    by (simp add: field_simps)
  have k: "0 \<le> ?k" "?k \<le> 2000"
    using assms by linarith+
  then have "(0::rat) \<le> of_int ?k / 20" and "of_int ?k / 20 \<le> (100::rat)"
    by simp_all
  then have "clamp ?w 0 100 = of_int ?k / 20"
    unfolding w by (simp add: clamp_def)
  then have "specScore c = \<lfloor>(of_int ?k / 20 :: rat) + 1 / 2\<rfloor>"
    by (simp only: specScore_def js_round_def)
  also have "(of_int ?k / 20 :: rat) + 1 / 2 = of_int (?k + 10) / of_int 20"
    by simp
  also have "\<lfloor>of_int (?k + 10) / (of_int 20 :: rat)\<rfloor> = (?k + 10) div 20"
    by (rule floor_divide_of_int_eq)
  finally show ?thesis .
qed

lemma round_near_half:
  fixes v :: rat and k :: int
  assumes near: "\<bar>v - of_int k / 20\<bar> \<le> 12 / 2 ^ 46"
  shows "(k + 10) div 20 - 1 \<le> js_round v \<and> js_round v \<le> (k + 10) div 20
       \<and> (k mod 20 \<noteq> 10 \<longrightarrow> js_round v = (k + 10) div 20)"
proof -
  define n where "n = (k + 10) div 20"
  define r where "r = (k + 10) mod 20"
  have r: "0 \<le> r" "r \<le> 19" unfolding r_def by presburger+
  have "k + 10 = 20 * n + r" by (simp add: n_def r_def)
  then have "(of_int (k + 10) :: rat) = of_int (20 * n + r)" by simp
  then have k: "(of_int k :: rat) / 20 + 1 / 2 = of_int n + of_int r / 20"
    by simp
  have d: "(12 :: rat) / 2 ^ 46 \<le> 1 / 1000" by simp
  have r': "(0::rat) \<le> of_int r" "(of_int r :: rat) \<le> 19" using r by simp_all
  have lo: "of_int n + of_int r / 20 - 1 / 1000 \<le> v + 1 / 2"
    and hi: "v + 1 / 2 \<le> of_int n + of_int r / 20 + 1 / 1000"
    using near k d by linarith+
  have "of_int (n - 1) \<le> v + 1 / 2" using lo r' by simp
  then have a: "n - 1 \<le> js_round v"
    by (simp only: js_round_def le_floor_iff)
  have "v + 1 / 2 < of_int (n + 1)" using hi r' by simp
  then have "js_round v < n + 1"
    by (simp only: js_round_def floor_less_iff)
  then have b: "js_round v \<le> n" by simp
  have c: "js_round v = n" if "k mod 20 \<noteq> 10"
  proof -
    have "r \<noteq> 0" using that unfolding r_def by presburger
    with r have "1 \<le> r" by simp
    then have "(1::rat) \<le> of_int r" by simp
    with lo have "of_int n \<le> v + 1 / 2" by simp
    then have "n \<le> js_round v" by (simp only: js_round_def le_floor_iff)
    with b show ?thesis by simp
  qed
  from a b c show ?thesis by (simp add: n_def)
qed

lemma clamp_near:
  fixes w t d :: rat
  assumes "\<bar>w - t\<bar> \<le> d" and "0 \<le> t" and "t \<le> 100"
  shows "\<bar>max 0 (min 100 w) - t\<bar> \<le> d"
  using assms by (simp add: max_def min_def abs_le_iff)

text \<open>
  C3. The specification gives the aggregate score as
  \<open>round(clamp(0.25*consistency + 0.25*performance + 0.20*improvement + 0.15*variety
  + 0.15*intensity, 0, 100))\<close>. \<open>calculateStandardizedScore\<close> evaluates this formula
  in double arithmetic: the weights 0.20 and 0.15 are not doubles, and every product and
  every sum is rounded. For integer components in the range 0 to 100 the result is the
  value of the formula in exact arithmetic, \<open>specScore\<close>, unless the exact weighted sum
  lies halfway between two integers, which is when
  \<open>5*consistency + 5*performance + 4*improvement + 3*variety + 3*intensity\<close> leaves the
  remainder 10 modulo 20; there the result is \<open>specScore\<close> or one less. For the
  components 0, 0, 0, 1, 9 the exact sum is 1.5 and the formula gives 2, while
  \<open>calculateStandardizedScore\<close> adds 0.15 and 1.3499999999999999 to 1.4999999999999998
  and returns 1.
\<close>

theorem calculateStandardizedScore_near_formula:
  assumes "0 \<le> consistency c" "consistency c \<le> 100" "0 \<le> performance c" "performance c \<le> 100"
    "0 \<le> improvement c" "improvement c \<le> 100" "0 \<le> variety c" "variety c \<le> 100"
    "0 \<le> intensity c" "intensity c \<le> 100"
  shows "specScore c - 1 \<le> calculateStandardizedScore c
       \<and> calculateStandardizedScore c \<le> specScore c
       \<and> ((5 * consistency c + 5 * performance c + 4 * improvement c + 3 * variety c
            + 3 * intensity c) mod 20 \<noteq> 10
          \<longrightarrow> calculateStandardizedScore c = specScore c)"
proof -
  let ?k = "5 * consistency c + 5 * performance c + 4 * improvement c + 3 * variety c
            + 3 * intensity c"
  define w where "w = jsAdd (jsAdd (jsAdd (jsAdd
              (jsMul (of_int (consistency c)) (consistency weights))
              (jsMul (of_int (performance c)) (performance weights)))
              (jsMul (of_int (improvement c)) (improvement weights)))
              (jsMul (of_int (variety c)) (variety weights)))
              (jsMul (of_int (intensity c)) (intensity weights))"
  have "\<bar>w - of_int ?k / 20\<bar> \<le> 12 / 2 ^ 46"
    unfolding w_def weight_values using assms by (rule weightedScore_near)
  moreover have "(0::rat) \<le> of_int ?k / 20" and "of_int ?k / 20 \<le> (100::rat)"
    using assms by simp_all
  ultimately have "\<bar>max 0 (min 100 w) - of_int ?k / 20\<bar> \<le> 12 / 2 ^ 46"
    by (rule clamp_near)
  then have "(?k + 10) div 20 - 1 \<le> js_round (max 0 (min 100 w))
       \<and> js_round (max 0 (min 100 w)) \<le> (?k + 10) div 20
       \<and> (?k mod 20 \<noteq> 10 \<longrightarrow> js_round (max 0 (min 100 w)) = (?k + 10) div 20)"
    by (rule round_near_half)
  moreover have "calculateStandardizedScore c = js_round (max 0 (min 100 w))"
    by (simp only: calculateStandardizedScore_def w_def Let_def)
  moreover note specScore_div [OF assms]
  ultimately show ?thesis by simp
qed

theorem calculateStandardizedScore_tie_counterexample:
  "calculateStandardizedScore
     \<lparr>consistency = 0, performance = 0, improvement = 0, variety = 1, intensity = 9\<rparr> = 1
   \<and> specScore
     \<lparr>consistency = 0, performance = 0, improvement = 0, variety = 1, intensity = 9\<rparr> = 2"
  by code_simp

theorem calculateStandardizedScore_near_formula_witness:
  "calculateStandardizedScore
     \<lparr>consistency = 80, performance = 70, improvement = 50, variety = 40, intensity = 61\<rparr>
   = specScore
     \<lparr>consistency = 80, performance = 70, improvement = 50, variety = 40, intensity = 61\<rparr>
   \<and> specScore
     \<lparr>consistency = 13, performance = 2, improvement = 50, variety = 57, intensity = 48\<rparr> - 1
   \<le> calculateStandardizedScore
     \<lparr>consistency = 13, performance = 2, improvement = 50, variety = 57, intensity = 48\<rparr>
   \<and> calculateStandardizedScore
     \<lparr>consistency = 13, performance = 2, improvement = 50, variety = 57, intensity = 48\<rparr>
   \<le> specScore
     \<lparr>consistency = 13, performance = 2, improvement = 50, variety = 57, intensity = 48\<rparr>"
  using calculateStandardizedScore_near_formula
      [of "\<lparr>consistency = 80, performance = 70, improvement = 50, variety = 40, intensity = 61\<rparr>"]
    calculateStandardizedScore_near_formula
      [of "\<lparr>consistency = 13, performance = 2, improvement = 50, variety = 57, intensity = 48\<rparr>"]
  by simp


subsection \<open>A user without workouts\<close>

lemma components_empty:
  "calculateStandardizedComponents clk [] =
     Inr \<lparr>consistency = 0, performance = 50, improvement = 50, variety = 0, intensity = 50\<rparr>"
proof -
  have r0: "roundClamp 0 = 0" using roundClamp_of_int [of 0] by simp
  have r50: "roundClamp 50 = 50" using roundClamp_of_int [of 50] by simp
  show ?thesis
    by (simp add: calculateStandardizedComponents_def calculateStandardizedConsistency_def
        workoutsLast30Days_def calculateStandardizedPerformance_def
        calculateStandardizedImprovement_def calculateStandardizedVariety_def
        calculateStandardizedIntensity_def jsMul_def jsDiv_def fl_zero r0 r50)
qed

lemma score_of_defaults:
  "calculateStandardizedScore
     \<lparr>consistency = 0, performance = 50, improvement = 50, variety = 0, intensity = 50\<rparr> = 30"
  by code_simp

lemma level_of_30: "getStandardizedPerformanceLevel 30 = ''Beginner''"
  by code_simp

lemma trend_without_history:
  "historyItems st userId = None \<Longrightarrow> calculateTrend clk st userId currentScore = ''stable''"
  by (simp add: calculateTrend_def getIndexHistory_def readHistory_def)

text \<open>
  C1. The specification's scenario gives a new user (no workouts, no snapshot history) a
  score of at most 14 and the level "New User", with trend "stable". On an empty history
  the scorers return the neutral 50 for performance, improvement and intensity, which
  is what the specification's own rules of the three scorers prescribe, so the
  components are 0, 50, 50, 0, 50, the score is 30 and the level is "Beginner"; the trend
  is as specified. The theorem states what \<open>calculateIndex\<close> returns for every such
  store, clock and user; for the empty store the score is not at most 14 and the level is
  not "New User".
\<close>

theorem calculateIndex_new_user:
  assumes "getWorkoutHistory st = Array []" and "historyItems st userId = None"
  shows "score (fst (calculateIndex toDateString clk userId st)) = 30
       \<and> level (fst (calculateIndex toDateString clk userId st)) = ''Beginner''
       \<and> trend (fst (calculateIndex toDateString clk userId st)) = ''stable''"
proof -
  have v: "isValid (validateMetricInputs (Array []))"
    by (simp add: validateMetricInputs_def)
  have t: "calculateTrend clk st userId 30 = ''stable''"
    using assms(2) by (rule trend_without_history)
  show ?thesis
    using assms(1) v t
    by (simp add: calculateIndex_def calculateIndexTry_def elements_def components_empty
        score_of_defaults level_of_30 Let_def)
qed

theorem calculateIndex_new_user_witness:
  "getWorkoutHistory emptyStorage = Array []
   \<and> historyItems emptyStorage ''default'' = None
   \<and> score (fst (calculateIndex utcDay exampleClock ''default'' emptyStorage)) = 30
   \<and> level (fst (calculateIndex utcDay exampleClock ''default'' emptyStorage)) = ''Beginner''
   \<and> trend (fst (calculateIndex utcDay exampleClock ''default'' emptyStorage)) = ''stable''"
proof -
  have h1: "getWorkoutHistory emptyStorage = Array []"
    by (simp add: getWorkoutHistory_def emptyStorage_def)
  have h2: "historyItems emptyStorage ''default'' = None"
    by (simp add: emptyStorage_def)
  from calculateIndex_new_user [OF h1 h2, of utcDay exampleClock] h1 h2
  show ?thesis by simp
qed

theorem calculateIndex_new_user_counterexample:
  "getWorkoutHistory emptyStorage = Array []
   \<and> historyItems emptyStorage ''default'' = None
   \<and> \<not> score (fst (calculateIndex utcDay exampleClock ''default'' emptyStorage)) \<le> 14
   \<and> level (fst (calculateIndex utcDay exampleClock ''default'' emptyStorage)) \<noteq> ''New User''"
proof -
  have "getWorkoutHistory emptyStorage = Array []"
    by (simp add: getWorkoutHistory_def emptyStorage_def)
  moreover have "historyItems emptyStorage ''default'' = None"
    by (simp add: emptyStorage_def)
  moreover have "\<not> score (fst (calculateIndex utcDay exampleClock ''default'' emptyStorage)) \<le> 14"
    by code_simp
  moreover have "level (fst (calculateIndex utcDay exampleClock ''default'' emptyStorage))
      \<noteq> ''New User''"
    by code_simp
  ultimately show ?thesis by simp
qed

subsection \<open>Performance levels\<close>

lemma getStandardizedPerformanceLevel_range:
  assumes "0 \<le> s" and "s \<le> 100"
  shows "\<exists>l \<in> set performanceLevels.
           getStandardizedPerformanceLevel s = llevel l \<and> lmin l \<le> s \<and> s \<le> lmax l"
  using assms by (simp add: getStandardizedPerformanceLevel_def performanceLevels_def)

lemma level_of_range:
  assumes "l \<in> set performanceLevels" and "lmin l \<le> s" and "s \<le> lmax l"
  shows "getStandardizedPerformanceLevel s = llevel l"
  using assms unfolding performanceLevels_def getStandardizedPerformanceLevel_def
  by (elim disjE | simp)+

lemma lmin_of_range:
  assumes "l \<in> set performanceLevels" and "lmin l \<le> s" and "s \<le> lmax l"
  shows "lmin l = (if 90 \<le> s then 90 else if 75 \<le> s then 75 else if 60 \<le> s then 60
                   else if 45 \<le> s then 45 else if 30 \<le> s then 30
                   else if 15 \<le> s then 15 else 0)"
  using assms unfolding performanceLevels_def
  by (elim disjE | simp)+

lemma lmin_inj:
  assumes "l \<in> set performanceLevels" and "l' \<in> set performanceLevels"
    and "lmin l = lmin l'"
  shows "l = l'"
  using assms unfolding performanceLevels_def
  by (elim disjE | simp)+

lemma performanceLevels_disjoint:
  assumes "l \<in> set performanceLevels" and "l' \<in> set performanceLevels"
    and "lmin l \<le> s" and "s \<le> lmax l" and "lmin l' \<le> s" and "s \<le> lmax l'"
  shows "l = l'"
proof -
  have "lmin l = lmin l'"
    using lmin_of_range [OF assms(1) assms(3) assms(4)]
      lmin_of_range [OF assms(2) assms(5) assms(6)] by simp
  then show ?thesis
    using assms(1) assms(2) by (rule lmin_inj [rotated 2])
qed

text \<open>
  C2. The specification says that the level of every result, the default index
  included, is the label of the range that contains its score. The level table gives the
  score 0 the label "New User", and so does \<open>getStandardizedPerformanceLevel\<close>, while
  the default index pairs the score 0 with the label "Getting Started". The default index
  is what \<open>calculateIndex\<close> returns for a store whose last workout has no calorie
  count. Computed results take their level from \<open>getStandardizedPerformanceLevel\<close>,
  which returns the label of the one range that holds the score (lemmas
  \<open>getStandardizedPerformanceLevel_range\<close> and \<open>performanceLevels_disjoint\<close>).
\<close>

theorem calculateIndex_default_level_mismatch:
  "score (fst (calculateIndex utcDay exampleClock ''default'' noCaloriesStorage)) = 0
   \<and> level (fst (calculateIndex utcDay exampleClock ''default'' noCaloriesStorage))
       = ''Getting Started''
   \<and> getStandardizedPerformanceLevel 0 = ''New User''"
  by code_simp

subsection \<open>Target calories\<close>

text \<open>
  C5. The specification says that a subject older than 65 gets the age factor 0.8. In
  \<open>getStandardizedTargetCalories\<close> the test \<open>age > 50\<close> comes before the test
  \<open>age > 65\<close>, so the factor is 0.9: a one-hour run of a 70-year-old man of 70 kg has
  the target \<open>round(11 * 70 * 1 * 0.9 * 1.1) = 762\<close>, where the specification gives
  \<open>round(11 * 70 * 1 * 0.8 * 1.1) = 678\<close>.
\<close>

theorem getStandardizedTargetCalories_age_70:
  "getStandardizedTargetCalories seniorRun = 762
   \<and> getStandardizedTargetCalories seniorRun
       = of_int (js_round (11 * 70 * (60 / 60) * (9 / 10) * (11 / 10)))
   \<and> js_round (11 * 70 * (60 / 60) * (8 / 10) * (11 / 10)) = 678"
  by code_simp

subsection \<open>Comparison with the previous period\<close>

text \<open>
  C4. The specification says that \<open>compareWithPrevious\<close> returns \<open>null\<close> whenever
  the entries before \<open>now - days\<close> or the remaining entries are empty. The code tests
  the first partition only, besides the number of loaded entries: it returns \<open>null\<close>
  exactly when fewer than two entries are loaded or none of them is before
  \<open>now - days\<close>. With two loaded entries that are both before \<open>now - days\<close> the
  remainder is empty and the result compares the latest entry with itself.
\<close>

theorem compareWithPrevious_null_iff:
  "compareWithPrevious clk st userId days = None
   \<longleftrightarrow> length (getIndexHistory clk st userId (days * 2)) < 2
       \<or> previousEntriesOf clk days (getIndexHistory clk st userId (days * 2)) = []"
  by (simp add: compareWithPrevious_def Let_def)

theorem compareWithPrevious_remainder_empty_counterexample:
  "filter (\<lambda>entry. \<not> h_timestamp entry < now exampleClock - 7 * msPerDay)
      (getIndexHistory exampleClock staleHistoryStorage ''default'' (7 * 2)) = []
   \<and> compareWithPrevious exampleClock staleHistoryStorage ''default'' 7
       = Some \<lparr>ccurrent = 66, cprevious = 66, cdifference = 0, cpercentChange = 0,
                ctrend = ''stable''\<rparr>"
  by code_simp

theorem compareWithPrevious_null_iff_witness:
  "compareWithPrevious exampleClock emptyStorage ''default'' 7 = None
   \<and> compareWithPrevious exampleClock staleHistoryStorage ''default'' 7 \<noteq> None"
proof -
  have a: "length (getIndexHistory exampleClock emptyStorage ''default'' (7 * 2)) < 2"
    by code_simp
  have b: "\<not> length (getIndexHistory exampleClock staleHistoryStorage ''default'' (7 * 2)) < 2"
    by code_simp
  have c: "previousEntriesOf exampleClock 7
             (getIndexHistory exampleClock staleHistoryStorage ''default'' (7 * 2)) \<noteq> []"
    by code_simp
  show ?thesis
    using a b c compareWithPrevious_null_iff [of exampleClock emptyStorage "''default''" 7]
      compareWithPrevious_null_iff [of exampleClock staleHistoryStorage "''default''" 7]
    by simp
qed

subsection \<open>Consistency\<close>

lemma consistency_small_mono:
  assumes "m \<le> n"
  shows "jsMul (jsDiv (of_nat m) 3) 10 \<le> jsMul (jsDiv (of_nat n) 3) 10"
  unfolding jsMul_def jsDiv_def
  by (intro fl_mono mult_right_mono divide_right_mono) (use assms in simp_all)

lemma consistency_large_mono:
  assumes "m \<le> n"
  shows "min 100 (jsMul (jsDiv (of_nat m) 30) 100) \<le> min 100 (jsMul (jsDiv (of_nat n) 30) 100)"
proof -
  have "jsMul (jsDiv (of_nat m) 30) 100 \<le> jsMul (jsDiv (of_nat n) 30) 100"
    unfolding jsMul_def jsDiv_def
    by (intro fl_mono mult_right_mono divide_right_mono) (use assms in simp_all)
  then show ?thesis by (simp add: min_def)
qed

lemma consistency_two_three:
  "jsMul (jsDiv (of_nat 2) 3) 10 \<le> min 100 (jsMul (jsDiv (of_nat 3) 30) 100)"
  by code_simp

lemma consistency_formula_mono:
  assumes "m \<le> n"
  shows "(if m < 3 then jsMul (jsDiv (of_nat m) 3) 10
          else min 100 (jsMul (jsDiv (of_nat m) 30) 100))
       \<le> (if n < 3 then jsMul (jsDiv (of_nat n) 3) 10
           else min 100 (jsMul (jsDiv (of_nat n) 30) 100))"
proof -
  consider (small) "n < 3" | (mixed) "m < 3" "3 \<le> n" | (large) "3 \<le> m"
    using assms by linarith
  then show ?thesis
  proof cases
    case small
    then have "m < 3" using assms by simp
    with small consistency_small_mono [OF assms] show ?thesis by simp
  next
    case mixed
    from mixed(1) have "m \<le> 2" by simp
    then have "jsMul (jsDiv (of_nat m) 3) 10 \<le> jsMul (jsDiv (of_nat 2) 3) 10"
      by (rule consistency_small_mono)
    also note consistency_two_three
    also have "min 100 (jsMul (jsDiv (of_nat 3) 30) 100)
        \<le> min 100 (jsMul (jsDiv (of_nat n) 30) 100)"
      using mixed(2) by (rule consistency_large_mono)
    finally show ?thesis using mixed by simp
  next
    case large
    then have "3 \<le> n" using assms by simp
    with large consistency_large_mono [OF assms] show ?thesis by simp
  qed
qed

text \<open>
  C7. Of two workout histories, the one with at least as many records dated within the
  last 30 days has at least as high a consistency score, both as the scorer returns it
  and as the rounded, clamped component. Two histories that differ only in that the
  second has more such records are a special case.
\<close>

theorem consistency_monotone:
  assumes "workoutsLast30Days clk h1 \<le> workoutsLast30Days clk h2"
  shows "calculateStandardizedConsistency clk h1 \<le> calculateStandardizedConsistency clk h2
       \<and> roundClamp (calculateStandardizedConsistency clk h1)
           \<le> roundClamp (calculateStandardizedConsistency clk h2)"
proof -
  have raw: "calculateStandardizedConsistency clk h1 \<le> calculateStandardizedConsistency clk h2"
    unfolding calculateStandardizedConsistency_def Let_def
    using assms by (rule consistency_formula_mono)
  then show ?thesis
    by (simp add: roundClamp_mono)
qed

theorem consistency_monotone_witness:
  "workoutsLast30Days exampleClock [] \<le> workoutsLast30Days exampleClock [seniorRun, seniorRun, seniorRun]
   \<and> calculateStandardizedConsistency exampleClock [] = 0
   \<and> calculateStandardizedConsistency exampleClock [seniorRun, seniorRun, seniorRun] = 10
   \<and> calculateStandardizedConsistency exampleClock []
       \<le> calculateStandardizedConsistency exampleClock [seniorRun, seniorRun, seniorRun]
   \<and> roundClamp (calculateStandardizedConsistency exampleClock [])
       \<le> roundClamp (calculateStandardizedConsistency exampleClock [seniorRun, seniorRun, seniorRun])"
proof -
  have h: "workoutsLast30Days exampleClock [] \<le> workoutsLast30Days exampleClock [seniorRun, seniorRun, seniorRun]"
    by code_simp
  have a: "calculateStandardizedConsistency exampleClock [] = 0"
    by code_simp
  have b: "calculateStandardizedConsistency exampleClock [seniorRun, seniorRun, seniorRun] = 10"
    by code_simp
  from consistency_monotone [OF h] h a b show ?thesis by simp
qed

subsection \<open>Daily snapshots\<close>

lemma map_of_mapSet: "map_of (mapSet k v m) = (map_of m)(k \<mapsto> v)"
  by (induction m) auto

lemma keys_mapSet: "fst ` set (mapSet k v m) = insert k (fst ` set m)"
proof -
  have "fst ` set (mapSet k v m) = dom (map_of (mapSet k v m))"
    by (simp only: dom_map_of_conv_image_fst)
  also have "\<dots> = insert k (dom (map_of m))"
    by (simp add: map_of_mapSet)
  finally show ?thesis
    by (simp only: dom_map_of_conv_image_fst)
qed

lemma distinct_mapSet: "distinct (map fst m) \<Longrightarrow> distinct (map fst (mapSet k v m))"
proof (induction m)
  case Nil
  then show ?case by simp
next
  case (Cons p m)
  obtain k' v' where p: "p = (k', v')" by (cases p)
  show ?case
  proof (cases "k' = k")
    case True
    with Cons.prems p show ?thesis by simp
  next
    case False
    have "k' \<notin> fst ` set (mapSet k v m)"
      using Cons.prems False p by (simp add: keys_mapSet)
    with Cons p False show ?thesis by simp
  qed
qed

lemma dailyInv_empty: "dailyInv f {} []"
  by (simp add: dailyInv_def)

lemma dailyInv_insert:
  assumes inv: "dailyInv f S m"
    and newer: "\<And>e. map_of m (f (h_timestamp x)) = Some e \<Longrightarrow> h_timestamp e \<le> h_timestamp x"
  shows "dailyInv f (insert x S) (mapSet (f (h_timestamp x)) x m)"
  unfolding dailyInv_def
proof (intro conjI allI impI ballI)
  show "distinct (map fst (mapSet (f (h_timestamp x)) x m))"
    using inv by (simp add: dailyInv_def distinct_mapSet)
next
  fix k e assume "map_of (mapSet (f (h_timestamp x)) x m) k = Some e"
  then have "(k = f (h_timestamp x) \<and> e = x) \<or> map_of m k = Some e"
    by (simp add: map_of_mapSet split: if_splits)
  then show "k = f (h_timestamp e)" and "e \<in> insert x S"
    using inv unfolding dailyInv_def by blast+
next
  fix y assume y: "y \<in> insert x S"
  show "\<exists>e. map_of (mapSet (f (h_timestamp x)) x m) (f (h_timestamp y)) = Some e
             \<and> h_timestamp y \<le> h_timestamp e"
  proof (cases "f (h_timestamp y) = f (h_timestamp x)")
    case True
    have "h_timestamp y \<le> h_timestamp x"
    proof (cases "y = x")
      case True
      then show ?thesis by simp
    next
      case False
      with y have "y \<in> S" by simp
      with inv obtain e where e: "map_of m (f (h_timestamp y)) = Some e"
        and le: "h_timestamp y \<le> h_timestamp e"
        unfolding dailyInv_def by blast
      from e True have "h_timestamp e \<le> h_timestamp x"
        by (simp add: newer)
      with le show ?thesis by simp
    qed
    with True show ?thesis by (simp add: map_of_mapSet)
  next
    case False
    then have "y \<noteq> x" by auto
    with y have "y \<in> S" by simp
    with inv obtain e where "map_of m (f (h_timestamp y)) = Some e"
      and "h_timestamp y \<le> h_timestamp e"
      unfolding dailyInv_def by blast
    with False show ?thesis by (simp add: map_of_mapSet)
  qed
qed

lemma dailyInv_keep:
  assumes inv: "dailyInv f S m"
    and older: "map_of m (f (h_timestamp x)) = Some e" "h_timestamp x \<le> h_timestamp e"
  shows "dailyInv f (insert x S) m"
  unfolding dailyInv_def
proof (intro conjI allI impI ballI)
  show "distinct (map fst m)"
    using inv by (simp add: dailyInv_def)
next
  fix k e' assume "map_of m k = Some e'"
  then show "k = f (h_timestamp e')" and "e' \<in> insert x S"
    using inv unfolding dailyInv_def by blast+
next
  fix y assume "y \<in> insert x S"
  then consider "y = x" | "y \<in> S" by auto
  then show "\<exists>e. map_of m (f (h_timestamp y)) = Some e \<and> h_timestamp y \<le> h_timestamp e"
  proof cases
    case 1
    with older show ?thesis by simp
  next
    case 2
    with inv show ?thesis unfolding dailyInv_def by blast
  qed
qed

lemma dailyInv_step:
  assumes "dailyInv f S m"
  shows "dailyInv f (insert x S) (dedupeStep f x m)"
proof (cases "map_of m (f (h_timestamp x))")
  case None
  then have "dedupeStep f x m = mapSet (f (h_timestamp x)) x m"
    by (simp add: dedupeStep_def)
  moreover have "dailyInv f (insert x S) (mapSet (f (h_timestamp x)) x m)"
    using assms by (rule dailyInv_insert) (simp add: None)
  ultimately show ?thesis by simp
next
  case (Some e)
  show ?thesis
  proof (cases "h_timestamp x > h_timestamp e")
    case True
    then have "dedupeStep f x m = mapSet (f (h_timestamp x)) x m"
      using Some by (simp add: dedupeStep_def)
    moreover have "dailyInv f (insert x S) (mapSet (f (h_timestamp x)) x m)"
      using assms by (rule dailyInv_insert) (use Some True in simp)
    ultimately show ?thesis by simp
  next
    case False
    then have "dedupeStep f x m = m"
      using Some by (simp add: dedupeStep_def)
    moreover have "dailyInv f (insert x S) m"
      using assms Some by (rule dailyInv_keep) (use False in simp)
    ultimately show ?thesis by simp
  qed
qed

lemma dailyInv_fold:
  "dailyInv f S m \<Longrightarrow> dailyInv f (S \<union> set xs) (fold (dedupeStep f) xs m)"
proof (induction xs arbitrary: S m)
  case Nil
  then show ?case by simp
next
  case (Cons x xs)
  from Cons.prems have "dailyInv f (insert x S) (dedupeStep f x m)"
    by (rule dailyInv_step)
  from Cons.IH [OF this] show ?case by simp
qed

lemma dailyInv_all: "dailyInv f (set xs) (fold (dedupeStep f) xs [])"
  using dailyInv_fold [OF dailyInv_empty, of f xs] by simp

lemma dedupe_member:
  assumes "e \<in> set (dedupeDailyEntries f xs)"
  shows "map_of (fold (dedupeStep f) xs []) (f (h_timestamp e)) = Some e"
proof -
  have inv: "dailyInv f (set xs) (fold (dedupeStep f) xs [])"
    by (rule dailyInv_all)
  from assms obtain k where "(k, e) \<in> set (fold (dedupeStep f) xs [])"
    by (auto simp: dedupeDailyEntries_def)
  with inv have k: "map_of (fold (dedupeStep f) xs []) k = Some e"
    by (simp add: dailyInv_def)
  with inv have "k = f (h_timestamp e)"
    unfolding dailyInv_def by blast
  with k show ?thesis by simp
qed

lemma dedupe_subset: "set (dedupeDailyEntries f xs) \<subseteq> set xs"
proof
  fix e assume "e \<in> set (dedupeDailyEntries f xs)"
  then have "map_of (fold (dedupeStep f) xs []) (f (h_timestamp e)) = Some e"
    by (rule dedupe_member)
  moreover have "dailyInv f (set xs) (fold (dedupeStep f) xs [])"
    by (rule dailyInv_all)
  ultimately show "e \<in> set xs"
    unfolding dailyInv_def by blast
qed

lemma dedupe_covers:
  assumes "x \<in> set xs"
  shows "\<exists>e \<in> set (dedupeDailyEntries f xs).
           f (h_timestamp e) = f (h_timestamp x) \<and> h_timestamp x \<le> h_timestamp e"
proof -
  have inv: "dailyInv f (set xs) (fold (dedupeStep f) xs [])"
    by (rule dailyInv_all)
  with assms obtain e where e: "map_of (fold (dedupeStep f) xs []) (f (h_timestamp x)) = Some e"
    and le: "h_timestamp x \<le> h_timestamp e"
    unfolding dailyInv_def by blast
  from e have "(f (h_timestamp x), e) \<in> set (fold (dedupeStep f) xs [])"
    by (rule map_of_SomeD)
  then have "snd (f (h_timestamp x), e) \<in> snd ` set (fold (dedupeStep f) xs [])"
    by (rule imageI)
  then have mem: "e \<in> set (dedupeDailyEntries f xs)"
    by (simp add: dedupeDailyEntries_def)
  from inv e have "f (h_timestamp x) = f (h_timestamp e)"
    unfolding dailyInv_def by blast
  with mem le show ?thesis by auto
qed

lemma dedupe_same_day_eq:
  assumes "e \<in> set (dedupeDailyEntries f xs)" and "e' \<in> set (dedupeDailyEntries f xs)"
    and "f (h_timestamp e) = f (h_timestamp e')"
  shows "e = e'"
proof -
  have "map_of (fold (dedupeStep f) xs []) (f (h_timestamp e)) = Some e"
    using assms(1) by (rule dedupe_member)
  moreover have "map_of (fold (dedupeStep f) xs []) (f (h_timestamp e)) = Some e'"
    using dedupe_member [OF assms(2)] by (simp only: assms(3))
  ultimately have "Some e = Some e'" by (rule trans [OF sym])
  then show ?thesis by (simp only: option.inject)
qed

lemma dedupe_distinct: "distinct (dedupeDailyEntries f xs)"
proof -
  let ?m = "fold (dedupeStep f) xs []"
  have inv: "dailyInv f (set xs) ?m"
    by (rule dailyInv_all)
  have "inj_on snd (set ?m)"
  proof (rule inj_onI)
    fix p q assume p: "p \<in> set ?m" and q: "q \<in> set ?m" and eq: "snd p = snd q"
    from p inv have "map_of ?m (fst p) = Some (snd p)" by (simp add: dailyInv_def)
    with inv have "fst p = f (h_timestamp (snd p))" unfolding dailyInv_def by blast
    moreover from q inv have "map_of ?m (fst q) = Some (snd q)" by (simp add: dailyInv_def)
    with inv have "fst q = f (h_timestamp (snd q))" unfolding dailyInv_def by blast
    ultimately have "fst p = fst q" using eq by simp
    with eq show "p = q" by (simp add: prod_eq_iff)
  qed
  moreover have "distinct ?m"
    using inv unfolding dailyInv_def by (simp add: distinct_map)
  ultimately have "distinct (map snd ?m)"
    by (simp add: distinct_map)
  then show ?thesis
    by (simp add: dedupeDailyEntries_def)
qed

lemma dedupe_distinct_days:
  "distinct (map (\<lambda>e. f (h_timestamp e)) (dedupeDailyEntries f xs))"
proof -
  have "inj_on (\<lambda>e. f (h_timestamp e)) (set (dedupeDailyEntries f xs))"
    by (rule inj_onI) (rule dedupe_same_day_eq)
  then show ?thesis
    by (simp add: distinct_map dedupe_distinct)
qed

lemma dedupe_sorted: "sorted (map h_timestamp (dedupeDailyEntries f xs))"
  by (simp add: dedupeDailyEntries_def sorted_sort_key)

lemma saveToHistory_success:
  assumes "saveToHistory f clk userId indexData st = (True, st')"
  shows "\<exists>history. readHistory st userId = HEntries history
           \<and> historyItems st' userId = Some (HEntries (dedupeDailyEntries f
                (filter (\<lambda>entry. h_timestamp entry > now clk - MAX_HISTORY_DAYS * msPerDay)
                   (history @ [entryOf indexData]))))"
proof (cases "readHistory st userId")
  case HCorrupt
  with assms show ?thesis by (simp add: saveToHistory_def)
next
  case (HEntries history)
  with assms have "\<not> quotaExceeded st"
    by (auto simp: saveToHistory_def Let_def split: if_splits)
  with assms HEntries show ?thesis
    by (auto simp: saveToHistory_def Let_def)
qed

lemma filter_single:
  assumes "distinct xs" and "e \<in> set xs" and "P e" and "\<And>x. x \<in> set xs \<Longrightarrow> P x \<Longrightarrow> x = e"
  shows "filter P xs = [e]"
  using assms
proof (induction xs)
  case Nil
  then show ?case by simp
next
  case (Cons x xs)
  show ?case
  proof (cases "x = e")
    case True
    have "filter P xs = []"
    proof -
      have "\<forall>y \<in> set xs. \<not> P y"
      proof
        fix y assume y: "y \<in> set xs"
        show "\<not> P y"
        proof
          assume "P y"
          with y Cons.prems(4) have "y = e" by simp
          with y True Cons.prems(1) show False by simp
        qed
      qed
      then show ?thesis by (simp add: filter_empty_conv)
    qed
    with True Cons.prems(3) show ?thesis by simp
  next
    case False
    with Cons.prems(4) have "\<not> P x" by auto
    moreover have "filter P xs = [e]"
      using Cons.prems False by (intro Cons.IH) auto
    ultimately show ?thesis by simp
  qed
qed

lemma first_append_ok:
  "saveToHistory utcDay exampleClock ''default'' (indexAt 60 (20000 * msPerDay))
     unsortedHistoryStorage = (True, afterFirstAppend)"
proof -
  have "fst (saveToHistory utcDay exampleClock ''default'' (indexAt 60 (20000 * msPerDay))
               unsortedHistoryStorage)"
    by code_simp
  then show ?thesis
    by (simp add: afterFirstAppend_def prod_eq_iff)
qed

lemma second_append_ok:
  "saveToHistory utcDay laterClock ''default'' (indexAt 64 (20000 * msPerDay + 7200000))
     afterFirstAppend = (True, afterSecondAppend)"
proof -
  have "fst (saveToHistory utcDay laterClock ''default''
               (indexAt 64 (20000 * msPerDay + 7200000)) afterFirstAppend)"
    by code_simp
  then show ?thesis
    by (simp add: afterSecondAppend_def prod_eq_iff)
qed

text \<open>
  C9. After an append that succeeds (the stored item is a list and the store accepts
  the write), every entry of the persisted list has a timestamp later than 90 days
  before the time of the append, so none is older than 90 days.
\<close>

theorem saveToHistory_retention:
  assumes "saveToHistory f clk userId indexData st = (True, st')"
  shows "\<exists>history. historyItems st' userId = Some (HEntries history)
           \<and> (\<forall>e \<in> set history. now clk - 90 * msPerDay < h_timestamp e)"
proof -
  from saveToHistory_success [OF assms] obtain old where
    st': "historyItems st' userId = Some (HEntries (dedupeDailyEntries f
            (filter (\<lambda>entry. h_timestamp entry > now clk - MAX_HISTORY_DAYS * msPerDay)
               (old @ [entryOf indexData]))))"
    by blast
  have "\<forall>e \<in> set (dedupeDailyEntries f
            (filter (\<lambda>entry. h_timestamp entry > now clk - MAX_HISTORY_DAYS * msPerDay)
               (old @ [entryOf indexData]))). now clk - 90 * msPerDay < h_timestamp e"
    using dedupe_subset [of f "filter (\<lambda>entry. h_timestamp entry > now clk - MAX_HISTORY_DAYS * msPerDay)
               (old @ [entryOf indexData])"]
    by (auto simp: MAX_HISTORY_DAYS_def)
  with st' show ?thesis by blast
qed

theorem saveToHistory_retention_witness:
  "\<not> now exampleClock - 90 * msPerDay < h_timestamp (snapshotAt 40 (19900 * msPerDay))
   \<and> (\<exists>history. historyItems afterFirstAppend ''default'' = Some (HEntries history)
          \<and> (\<forall>e \<in> set history. now exampleClock - 90 * msPerDay < h_timestamp e))"
proof -
  have "\<not> now exampleClock - 90 * msPerDay < h_timestamp (snapshotAt 40 (19900 * msPerDay))"
    by code_simp
  with saveToHistory_retention [OF first_append_ok] show ?thesis by simp
qed

text \<open>
  C10. After an append that succeeds, the persisted list is in ascending order of
  timestamp, whatever the order of the list stored before. Every list that
  \<open>getIndexHistory\<close> then loads from it, for \<open>calculateTrend\<close> to slice, is in
  ascending order too.
\<close>

theorem saveToHistory_sorted:
  assumes "saveToHistory f clk userId indexData st = (True, st')"
  shows "\<exists>history. historyItems st' userId = Some (HEntries history)
           \<and> sorted (map h_timestamp history)
           \<and> sorted (map h_timestamp (getIndexHistory clk' st' userId days))"
proof -
  from saveToHistory_success [OF assms] obtain old where
    st': "historyItems st' userId = Some (HEntries (dedupeDailyEntries f
            (filter (\<lambda>entry. h_timestamp entry > now clk - MAX_HISTORY_DAYS * msPerDay)
               (old @ [entryOf indexData]))))"
    by blast
  let ?h = "dedupeDailyEntries f
            (filter (\<lambda>entry. h_timestamp entry > now clk - MAX_HISTORY_DAYS * msPerDay)
               (old @ [entryOf indexData]))"
  have s: "sorted (map h_timestamp ?h)" by (rule dedupe_sorted)
  have "sorted (map h_timestamp (filter (\<lambda>entry. h_timestamp entry > now clk' - days * msPerDay) ?h))"
    using s by (rule sorted_filter)
  then have "sorted (map h_timestamp (getIndexHistory clk' st' userId days))"
    using st' by (simp add: getIndexHistory_def readHistory_def)
  with st' s show ?thesis by blast
qed

theorem saveToHistory_sorted_witness:
  "\<not> sorted (map h_timestamp [snapshotAt 50 (19998 * msPerDay), snapshotAt 40 (19900 * msPerDay),
        snapshotAt 55 (19995 * msPerDay), snapshotAt 52 (19998 * msPerDay + 3600000)])
   \<and> (\<exists>history. historyItems afterFirstAppend ''default'' = Some (HEntries history)
        \<and> sorted (map h_timestamp history)
        \<and> sorted (map h_timestamp (getIndexHistory laterClock afterFirstAppend ''default'' 14)))"
proof -
  have "\<not> sorted (map h_timestamp [snapshotAt 50 (19998 * msPerDay),
        snapshotAt 40 (19900 * msPerDay), snapshotAt 55 (19995 * msPerDay),
        snapshotAt 52 (19998 * msPerDay + 3600000)])"
    by code_simp
  with saveToHistory_sorted [OF first_append_ok, of laterClock 14] show ?thesis
    by simp
qed

lemma saveToHistory_distinct_days:
  assumes "saveToHistory f clk userId indexData st = (True, st')"
  shows "\<exists>history. historyItems st' userId = Some (HEntries history)
           \<and> distinct (map (\<lambda>e. f (h_timestamp e)) history)"
proof -
  from saveToHistory_success [OF assms] obtain old where
    "historyItems st' userId = Some (HEntries (dedupeDailyEntries f
            (filter (\<lambda>entry. h_timestamp entry > now clk - MAX_HISTORY_DAYS * msPerDay)
               (old @ [entryOf indexData]))))"
    by blast
  then show ?thesis
    using dedupe_distinct_days by blast
qed

lemma dedupeStep_map_of:
  "map_of (dedupeStep f x m) k =
     (if k = f (h_timestamp x)
      then (case map_of m k of
              None \<Rightarrow> Some x
            | Some e \<Rightarrow> if h_timestamp e < h_timestamp x then Some x else Some e)
      else map_of m k)"
  by (simp add: dedupeStep_def Let_def map_of_mapSet split: option.splits)

lemma dedupe_snoc:
  "map_of (fold (dedupeStep f) (xs @ [x]) []) k =
     (if k = f (h_timestamp x)
      then (case map_of (fold (dedupeStep f) xs []) k of
              None \<Rightarrow> Some x
            | Some e \<Rightarrow> if h_timestamp e < h_timestamp x then Some x else Some e)
      else map_of (fold (dedupeStep f) xs []) k)"
  by (simp add: dedupeStep_map_of)

lemma dedupe_entry_of_member:
  assumes "x \<in> set xs"
  shows "\<exists>e. map_of (fold (dedupeStep f) xs []) (f (h_timestamp x)) = Some e
           \<and> h_timestamp x \<le> h_timestamp e \<and> e \<in> set xs \<and> f (h_timestamp e) = f (h_timestamp x)"
proof -
  have inv: "dailyInv f (set xs) (fold (dedupeStep f) xs [])"
    by (rule dailyInv_all)
  with assms obtain e where e: "map_of (fold (dedupeStep f) xs []) (f (h_timestamp x)) = Some e"
    and le: "h_timestamp x \<le> h_timestamp e"
    unfolding dailyInv_def by blast
  from inv e have "f (h_timestamp x) = f (h_timestamp e) \<and> e \<in> set xs"
    unfolding dailyInv_def by blast
  with e le show ?thesis by simp
qed

lemma dedupe_entry_member:
  assumes "map_of (fold (dedupeStep f) xs []) k = Some e"
  shows "e \<in> set (dedupeDailyEntries f xs) \<and> e \<in> set xs \<and> f (h_timestamp e) = k"
proof -
  have inv: "dailyInv f (set xs) (fold (dedupeStep f) xs [])"
    by (rule dailyInv_all)
  from assms have "(k, e) \<in> set (fold (dedupeStep f) xs [])"
    by (rule map_of_SomeD)
  then have "snd (k, e) \<in> snd ` set (fold (dedupeStep f) xs [])"
    by (rule imageI)
  then have "e \<in> set (dedupeDailyEntries f xs)"
    by (simp add: dedupeDailyEntries_def)
  moreover from inv assms have "k = f (h_timestamp e) \<and> e \<in> set xs"
    unfolding dailyInv_def by blast
  ultimately show ?thesis by simp
qed

lemma dedupe_day_entry:
  assumes "map_of (fold (dedupeStep f) xs []) k = Some e"
  shows "filter (\<lambda>x. f (h_timestamp x) = k) (dedupeDailyEntries f xs) = [e]"
proof (rule filter_single)
  note m = dedupe_entry_member [OF assms]
  show "distinct (dedupeDailyEntries f xs)" by (rule dedupe_distinct)
  show "e \<in> set (dedupeDailyEntries f xs)" using m by simp
  show "f (h_timestamp e) = k" using m by simp
  fix x assume "x \<in> set (dedupeDailyEntries f xs)" and "f (h_timestamp x) = k"
  then show "x = e"
    using m by (intro dedupe_same_day_eq [of x f xs e]) simp_all
qed

lemma saveToHistory_twice_same_day:
  assumes first: "saveToHistory f clk1 userId d1 st0 = (True, st1)"
    and second: "saveToHistory f clk2 userId d2 st1 = (True, st2)"
    and day: "f (lastUpdated d1) = f (lastUpdated d2)"
    and kept1: "now clk1 - 90 * msPerDay < lastUpdated d1"
    and kept12: "now clk2 - 90 * msPerDay < lastUpdated d1"
    and kept2: "now clk2 - 90 * msPerDay < lastUpdated d2"
    and old: "readHistory st0 userId = HEntries old"
  shows "\<exists>history e. historyItems st2 userId = Some (HEntries history)
           \<and> filter (\<lambda>x. f (h_timestamp x) = f (lastUpdated d2)) history = [e]
           \<and> lastUpdated d1 \<le> h_timestamp e \<and> lastUpdated d2 \<le> h_timestamp e
           \<and> ((\<forall>x \<in> set old. f (h_timestamp x) = f (lastUpdated d1)
                   \<longrightarrow> h_timestamp x < max (lastUpdated d1) (lastUpdated d2))
                \<longrightarrow> e = (if lastUpdated d1 < lastUpdated d2 then entryOf d2 else entryOf d1))"
proof -
  let ?c1 = "\<lambda>entry. h_timestamp entry > now clk1 - MAX_HISTORY_DAYS * msPerDay"
  let ?c2 = "\<lambda>entry. h_timestamp entry > now clk2 - MAX_HISTORY_DAYS * msPerDay"
  let ?k = "f (lastUpdated d2)"
  let ?in1 = "filter ?c1 old @ [entryOf d1]"
  let ?h1 = "dedupeDailyEntries f ?in1"
  let ?in2 = "filter ?c2 ?h1 @ [entryOf d2]"
  let ?h2 = "dedupeDailyEntries f ?in2"
  have ts1: "h_timestamp (entryOf d1) = lastUpdated d1"
    and ts2: "h_timestamp (entryOf d2) = lastUpdated d2"
    by (simp_all add: entryOf_def)
  have in1: "filter ?c1 (old @ [entryOf d1]) = ?in1"
    using kept1 by (simp add: ts1 MAX_HISTORY_DAYS_def)
  have in2: "filter ?c2 (?h1 @ [entryOf d2]) = ?in2"
    using kept2 by (simp add: ts2 MAX_HISTORY_DAYS_def)
  from saveToHistory_success [OF first] obtain h where
    h: "readHistory st0 userId = HEntries h"
    and s1: "historyItems st1 userId = Some (HEntries (dedupeDailyEntries f
               (filter ?c1 (h @ [entryOf d1]))))"
    by blast
  from h old have "h = old" by simp
  with s1 have "historyItems st1 userId = Some (HEntries (dedupeDailyEntries f
               (filter ?c1 (old @ [entryOf d1]))))"
    by (simp only:)
  then have st1: "historyItems st1 userId = Some (HEntries ?h1)"
    by (simp only: in1)
  then have r1: "readHistory st1 userId = HEntries ?h1"
    by (simp add: readHistory_def)
  from saveToHistory_success [OF second] obtain h' where
    h': "readHistory st1 userId = HEntries h'"
    and s2: "historyItems st2 userId = Some (HEntries (dedupeDailyEntries f
               (filter ?c2 (h' @ [entryOf d2]))))"
    by blast
  from h' r1 have "h' = ?h1" by simp
  with s2 have "historyItems st2 userId = Some (HEntries (dedupeDailyEntries f
               (filter ?c2 (?h1 @ [entryOf d2]))))"
    by (simp only:)
  then have st2: "historyItems st2 userId = Some (HEntries ?h2)"
    by (simp only: in2)
  \<comment> \<open>the entry of the day after the first append\<close>
  define m0 where "m0 = fold (dedupeStep f) (filter ?c1 old) []"
  define e1 where "e1 = (case map_of m0 ?k of
                           None \<Rightarrow> entryOf d1
                         | Some e \<Rightarrow> if h_timestamp e < lastUpdated d1 then entryOf d1 else e)"
  have m1: "map_of (fold (dedupeStep f) ?in1 []) ?k = Some e1"
    unfolding dedupe_snoc by (simp add: ts1 day m0_def e1_def split: option.splits)
  have e1_ge: "lastUpdated d1 \<le> h_timestamp e1"
    by (simp add: e1_def ts1 split: option.splits)
  have e1_h1: "e1 \<in> set ?h1" and e1_day: "f (h_timestamp e1) = ?k"
    using dedupe_entry_member [OF m1] by simp_all
  have e1_id: "e1 = entryOf d1 \<or> h_timestamp e1 < max (lastUpdated d1) (lastUpdated d2)"
    if P: "\<forall>x \<in> set old. f (h_timestamp x) = f (lastUpdated d1)
             \<longrightarrow> h_timestamp x < max (lastUpdated d1) (lastUpdated d2)"
  proof (cases "map_of m0 ?k")
    case None
    then show ?thesis by (simp add: e1_def)
  next
    case (Some e)
    then have "map_of (fold (dedupeStep f) (filter ?c1 old) []) ?k = Some e"
      by (simp add: m0_def)
    from dedupe_entry_member [OF this]
    have "e \<in> set old" and "f (h_timestamp e) = f (lastUpdated d1)"
      by (simp_all add: day)
    with P have "h_timestamp e < max (lastUpdated d1) (lastUpdated d2)"
      by blast
    with Some show ?thesis by (auto simp: e1_def max_def split: if_splits)
  qed
  \<comment> \<open>the entry of the day after the second append\<close>
  define m2 where "m2 = fold (dedupeStep f) (filter ?c2 ?h1) []"
  have "e1 \<in> set (filter ?c2 ?h1)"
    using e1_h1 e1_ge kept12 by (simp add: MAX_HISTORY_DAYS_def)
  from dedupe_entry_of_member [OF this, of f]
  obtain e' where e': "map_of m2 (f (h_timestamp e1)) = Some e'"
    and mem: "e' \<in> set (filter ?c2 ?h1)"
    and same: "f (h_timestamp e') = f (h_timestamp e1)"
    unfolding m2_def by blast
  from mem have "e' \<in> set ?h1" by simp
  then have "e' = e1"
    using e1_h1 same by (rule dedupe_same_day_eq)
  with e' e1_day have m2k: "map_of m2 ?k = Some e1" by simp
  define e where "e = (if h_timestamp e1 < lastUpdated d2 then entryOf d2 else e1)"
  have "map_of (fold (dedupeStep f) ?in2 []) ?k = Some e"
    unfolding dedupe_snoc using m2k by (simp add: ts2 m2_def [symmetric] e_def)
  then have single: "filter (\<lambda>x. f (h_timestamp x) = ?k) ?h2 = [e]"
    by (rule dedupe_day_entry)
  have ge1: "lastUpdated d1 \<le> h_timestamp e" and ge2: "lastUpdated d2 \<le> h_timestamp e"
    using e1_ge by (simp_all add: e_def ts2)
  have ident: "e = (if lastUpdated d1 < lastUpdated d2 then entryOf d2 else entryOf d1)"
    if P: "\<forall>x \<in> set old. f (h_timestamp x) = f (lastUpdated d1)
             \<longrightarrow> h_timestamp x < max (lastUpdated d1) (lastUpdated d2)"
  proof -
    from e1_id [OF P] show ?thesis
    proof
      assume "e1 = entryOf d1"
      then show ?thesis by (simp add: e_def ts1)
    next
      assume "h_timestamp e1 < max (lastUpdated d1) (lastUpdated d2)"
      with e1_ge have "h_timestamp e1 < lastUpdated d2" and "lastUpdated d1 < lastUpdated d2"
        by (simp_all add: max_def split: if_splits)
      then show ?thesis by (simp add: e_def)
    qed
  qed
  from st2 single ge1 ge2 ident show ?thesis by blast
qed

lemma later_first_ok:
  "saveToHistory utcDay laterClock ''default'' (indexAt 64 (20000 * msPerDay + 7200000))
     unsortedHistoryStorage = (True, afterLaterFirst)"
proof -
  have "fst (saveToHistory utcDay laterClock ''default''
               (indexAt 64 (20000 * msPerDay + 7200000)) unsortedHistoryStorage)"
    by code_simp
  then show ?thesis
    by (simp add: afterLaterFirst_def prod_eq_iff)
qed

lemma earlier_second_ok:
  "saveToHistory utcDay laterClock ''default'' (indexAt 60 (20000 * msPerDay))
     afterLaterFirst = (True, afterEarlierSecond)"
proof -
  have "fst (saveToHistory utcDay laterClock ''default''
               (indexAt 60 (20000 * msPerDay)) afterLaterFirst)"
    by code_simp
  then show ?thesis
    by (simp add: afterEarlierSecond_def prod_eq_iff)
qed

text \<open>
  C8. After an append that succeeds (the stored item is a list and the store accepts
  the write), the persisted list has at most one entry for each calendar day. After two
  appends that succeed, of snapshots of the same calendar day that are less than 90 days
  old at either append, the persisted list has exactly one entry of that day, and its
  timestamp is not earlier than that of either snapshot. When the history stored before
  has no entry of that day as late as the later of the two snapshots, the entry is the
  snapshot with the later timestamp, in whichever order the two were appended; of two
  snapshots with the same timestamp it is the one appended first.
\<close>

theorem saveToHistory_one_entry_per_day:
  "(saveToHistory f clk userId indexData st = (True, st') \<longrightarrow>
      (\<exists>history. historyItems st' userId = Some (HEntries history)
         \<and> distinct (map (\<lambda>e. f (h_timestamp e)) history)))
   \<and> (saveToHistory f clk1 userId d1 st0 = (True, st1)
      \<and> saveToHistory f clk2 userId d2 st1 = (True, st2)
      \<and> f (lastUpdated d1) = f (lastUpdated d2)
      \<and> now clk1 - 90 * msPerDay < lastUpdated d1
      \<and> now clk2 - 90 * msPerDay < lastUpdated d1
      \<and> now clk2 - 90 * msPerDay < lastUpdated d2
      \<and> readHistory st0 userId = HEntries old
      \<longrightarrow> (\<exists>history e. historyItems st2 userId = Some (HEntries history)
             \<and> filter (\<lambda>x. f (h_timestamp x) = f (lastUpdated d2)) history = [e]
             \<and> lastUpdated d1 \<le> h_timestamp e \<and> lastUpdated d2 \<le> h_timestamp e
             \<and> ((\<forall>x \<in> set old. f (h_timestamp x) = f (lastUpdated d1)
                     \<longrightarrow> h_timestamp x < max (lastUpdated d1) (lastUpdated d2))
                  \<longrightarrow> e = (if lastUpdated d1 < lastUpdated d2 then entryOf d2
                            else entryOf d1))))"
proof (intro conjI impI)
  assume "saveToHistory f clk userId indexData st = (True, st')"
  then show "\<exists>history. historyItems st' userId = Some (HEntries history)
               \<and> distinct (map (\<lambda>e. f (h_timestamp e)) history)"
    by (rule saveToHistory_distinct_days)
next
  assume h: "saveToHistory f clk1 userId d1 st0 = (True, st1)
      \<and> saveToHistory f clk2 userId d2 st1 = (True, st2)
      \<and> f (lastUpdated d1) = f (lastUpdated d2)
      \<and> now clk1 - 90 * msPerDay < lastUpdated d1
      \<and> now clk2 - 90 * msPerDay < lastUpdated d1
      \<and> now clk2 - 90 * msPerDay < lastUpdated d2
      \<and> readHistory st0 userId = HEntries old"
  then have "saveToHistory f clk1 userId d1 st0 = (True, st1)"
    and "saveToHistory f clk2 userId d2 st1 = (True, st2)"
    and "f (lastUpdated d1) = f (lastUpdated d2)"
    and "now clk1 - 90 * msPerDay < lastUpdated d1"
    and "now clk2 - 90 * msPerDay < lastUpdated d1"
    and "now clk2 - 90 * msPerDay < lastUpdated d2"
    and "readHistory st0 userId = HEntries old"
    by simp_all
  then show "\<exists>history e. historyItems st2 userId = Some (HEntries history)
             \<and> filter (\<lambda>x. f (h_timestamp x) = f (lastUpdated d2)) history = [e]
             \<and> lastUpdated d1 \<le> h_timestamp e \<and> lastUpdated d2 \<le> h_timestamp e
             \<and> ((\<forall>x \<in> set old. f (h_timestamp x) = f (lastUpdated d1)
                     \<longrightarrow> h_timestamp x < max (lastUpdated d1) (lastUpdated d2))
                  \<longrightarrow> e = (if lastUpdated d1 < lastUpdated d2 then entryOf d2
                            else entryOf d1))"
    by (rule saveToHistory_twice_same_day)
qed

theorem saveToHistory_one_entry_per_day_witness:
  "(\<exists>history. historyItems afterFirstAppend ''default'' = Some (HEntries history)
      \<and> distinct (map (\<lambda>e. utcDay (h_timestamp e)) history))
   \<and> (\<exists>history. historyItems afterSecondAppend ''default'' = Some (HEntries history)
        \<and> filter (\<lambda>x. utcDay (h_timestamp x) = utcDay (20000 * msPerDay)) history
            = [entryOf (indexAt 64 (20000 * msPerDay + 7200000))])
   \<and> (\<exists>history. historyItems afterEarlierSecond ''default'' = Some (HEntries history)
        \<and> filter (\<lambda>x. utcDay (h_timestamp x) = utcDay (20000 * msPerDay)) history
            = [entryOf (indexAt 64 (20000 * msPerDay + 7200000))])"
proof -
  let ?early = "indexAt 60 (20000 * msPerDay)"
  let ?late = "indexAt 64 (20000 * msPerDay + 7200000)"
  let ?old = "[snapshotAt 50 (19998 * msPerDay), snapshotAt 40 (19900 * msPerDay),
        snapshotAt 55 (19995 * msPerDay), snapshotAt 52 (19998 * msPerDay + 3600000)]"
  note forward = saveToHistory_one_entry_per_day
    [where f = utcDay and userId = "''default''" and clk = exampleClock
       and indexData = ?early and st = unsortedHistoryStorage
       and st' = afterFirstAppend and ?clk1.0 = exampleClock
       and ?d1.0 = ?early and ?st0.0 = unsortedHistoryStorage
       and ?st1.0 = afterFirstAppend and ?clk2.0 = laterClock
       and ?d2.0 = ?late and ?st2.0 = afterSecondAppend and old = ?old]
  note backward = saveToHistory_one_entry_per_day
    [where f = utcDay and userId = "''default''" and clk = exampleClock
       and indexData = ?early and st = unsortedHistoryStorage
       and st' = afterFirstAppend and ?clk1.0 = laterClock
       and ?d1.0 = ?late and ?st0.0 = unsortedHistoryStorage
       and ?st1.0 = afterLaterFirst and ?clk2.0 = laterClock
       and ?d2.0 = ?early and ?st2.0 = afterEarlierSecond and old = ?old]
  have te: "lastUpdated ?early = 20000 * msPerDay"
    and tl: "lastUpdated ?late = 20000 * msPerDay + 7200000"
    by (simp_all add: indexAt_def)
  have day: "utcDay (lastUpdated ?early) = utcDay (lastUpdated ?late)"
    by code_simp
  have less: "lastUpdated ?early < lastUpdated ?late"
    by code_simp
  have k1: "now exampleClock - 90 * msPerDay < lastUpdated ?early"
    and k2: "now laterClock - 90 * msPerDay < lastUpdated ?early"
    and k3: "now laterClock - 90 * msPerDay < lastUpdated ?late"
    by code_simp+
  have old: "readHistory unsortedHistoryStorage ''default'' = HEntries ?old"
    by (simp add: readHistory_def unsortedHistoryStorage_def emptyStorage_def)
  have past1: "\<forall>x \<in> set ?old. utcDay (h_timestamp x) = utcDay (lastUpdated ?early)
      \<longrightarrow> h_timestamp x < max (lastUpdated ?early) (lastUpdated ?late)"
    by code_simp
  have past2: "\<forall>x \<in> set ?old. utcDay (h_timestamp x) = utcDay (lastUpdated ?late)
      \<longrightarrow> h_timestamp x < max (lastUpdated ?late) (lastUpdated ?early)"
    by code_simp
  have one: "\<exists>history. historyItems afterFirstAppend ''default'' = Some (HEntries history)
      \<and> distinct (map (\<lambda>e. utcDay (h_timestamp e)) history)"
    using forward [THEN conjunct1] first_append_ok by (rule mp)
  have "\<exists>history e. historyItems afterSecondAppend ''default'' = Some (HEntries history)
        \<and> filter (\<lambda>x. utcDay (h_timestamp x) = utcDay (lastUpdated ?late)) history = [e]
        \<and> lastUpdated ?early \<le> h_timestamp e \<and> lastUpdated ?late \<le> h_timestamp e
        \<and> ((\<forall>x \<in> set ?old. utcDay (h_timestamp x) = utcDay (lastUpdated ?early)
                \<longrightarrow> h_timestamp x < max (lastUpdated ?early) (lastUpdated ?late))
            \<longrightarrow> e = (if lastUpdated ?early < lastUpdated ?late then entryOf ?late
                      else entryOf ?early))"
    using forward [THEN conjunct2]
    by (rule mp) (intro conjI first_append_ok second_append_ok day k1 k2 k3 old)
  with past1 less day
  have fw: "\<exists>history. historyItems afterSecondAppend ''default'' = Some (HEntries history)
        \<and> filter (\<lambda>x. utcDay (h_timestamp x) = utcDay (lastUpdated ?early)) history
            = [entryOf ?late]"
    by auto
  have "\<exists>history e. historyItems afterEarlierSecond ''default'' = Some (HEntries history)
        \<and> filter (\<lambda>x. utcDay (h_timestamp x) = utcDay (lastUpdated ?early)) history = [e]
        \<and> lastUpdated ?late \<le> h_timestamp e \<and> lastUpdated ?early \<le> h_timestamp e
        \<and> ((\<forall>x \<in> set ?old. utcDay (h_timestamp x) = utcDay (lastUpdated ?late)
                \<longrightarrow> h_timestamp x < max (lastUpdated ?late) (lastUpdated ?early))
            \<longrightarrow> e = (if lastUpdated ?late < lastUpdated ?early then entryOf ?early
                      else entryOf ?late))"
    using backward [THEN conjunct2]
    by (rule mp) (intro conjI later_first_ok earlier_second_ok day [symmetric] k2 k3 old)
  with past2 less
  have bw: "\<exists>history. historyItems afterEarlierSecond ''default'' = Some (HEntries history)
        \<and> filter (\<lambda>x. utcDay (h_timestamp x) = utcDay (lastUpdated ?early)) history
            = [entryOf ?late]"
    by auto
  from one fw bw show ?thesis
    by (simp only: te)
qed

subsection \<open>The gate of the entry point\<close>

lemma derefAll_Inr_iff: "(\<exists>ws. derefAll xs = Inr ws) \<longleftrightarrow> None \<notin> set xs"
proof (induction xs)
  case Nil
  then show ?case by simp
next
  case (Cons x xs)
  then show ?case by (cases x; cases "derefAll xs") auto
qed



lemma validateMetricInputs_isValid:
  "isValid (validateMetricInputs v) \<longleftrightarrow>
     (case v of
        Array ws \<Rightarrow>
          ws = [] \<or> (case last ws of
                       None \<Rightarrow> False
                     | Some w \<Rightarrow> (truthy (calories w) \<or> truthy (caloriesBurned w))
                                 \<and> (date w \<noteq> NoDate \<or> wtimestamp w \<noteq> NoDate))
      | _ \<Rightarrow> False)"
  by (simp add: validateMetricInputs_def truthyDate_def Let_def split: stored_workouts.splits option.splits)



subsection \<open>The defaults of the scorers\<close>






subsection \<open>The fallback biometrics\<close>



























subsection \<open>The outcome of the entry point\<close>








end
